theory Spec2Isabelle
  imports Main "HOL-Library.Word"
begin

unbundle bit_operations_syntax

section \<open>Go values used by the library\<close>

text \<open>
  A Go string is a sequence of bytes: \<open>string\<close> (a \<open>char list\<close>, each \<open>char\<close> one
  byte). A \<open>rune\<close> is a code point; the decoder below never leaves the range of
  \<open>int32\<close>, so runes are \<open>int\<close>. Errors are values: every \<open>errors.Errorf\<close>,
  \<open>errors.Wrap\<close>, \<open>syscall.Errno\<close> and \<open>loadError\<close> the sources build is a
  constructor of \<open>error\<close>, and a Go \<open>error\<close> that may be \<open>nil\<close> is an
  \<open>error option\<close>.
\<close>

type_synonym rune = int

datatype error =
    Errno nat
  | Errorf string
  | InvalidNameChar char string
  | Wrap error string
  | LoadError "error option" string
  | UndefinedSymbol string
  | MalformedInstruction
  | CyclicReference

subsection \<open>unicode/utf8 and strings.IndexFunc\<close>

text \<open>
  \<open>strings.IndexFunc\<close> ranges over the runes of its argument, so the UTF-8 decoder of
  Go's standard library is part of what \<open>newBPFObjName\<close> computes.
  \<open>utf8_first\<close> is the table \<open>first\<close> of package \<open>unicode/utf8\<close> together with its
  \<open>acceptRanges\<close>: a lead byte is ASCII (\<open>AS\<close>), invalid (\<open>XX\<close>), or starts
  a sequence of \<open>sz\<close> bytes whose second byte lies in \<open>lo..hi\<close>.
  In \<open>DecodeRuneInString\<close> the masks and shifts of the Go code are written as
  arithmetic: \<open>s0 & 0x1F\<close> is \<open>s0 mod 32\<close>, \<open>x << 6\<close> is \<open>x * 64\<close>, and the
  \<open>|\<close> of disjoint bit fields is their sum. An invalid or truncated sequence
  decodes to \<open>RuneError\<close> with width 1.
\<close>

definition RuneError :: rune where
  "RuneError = 0xFFFD"

datatype lead = AS | XX | Lead nat nat nat

definition utf8_first :: "nat \<Rightarrow> lead" where
  "utf8_first b =
     (if b < 0x80 then AS
      else if b < 0xC2 then XX
      else if b < 0xE0 then Lead 2 0x80 0xBF
      else if b = 0xE0 then Lead 3 0xA0 0xBF
      else if b < 0xED then Lead 3 0x80 0xBF
      else if b = 0xED then Lead 3 0x80 0x9F
      else if b < 0xF0 then Lead 3 0x80 0xBF
      else if b = 0xF0 then Lead 4 0x90 0xBF
      else if b < 0xF4 then Lead 4 0x80 0xBF
      else if b = 0xF4 then Lead 4 0x80 0x8F
      else XX)"

fun DecodeRuneInString :: "string \<Rightarrow> rune \<times> nat" where
  "DecodeRuneInString [] = (RuneError, 0)"
| "DecodeRuneInString (c0 # rest) =
     (let s0 = (of_char c0 :: nat) in
      case utf8_first s0 of
        AS \<Rightarrow> (int s0, 1)
      | XX \<Rightarrow> (RuneError, 1)
      | Lead sz lo hi \<Rightarrow>
          if length (c0 # rest) < sz then (RuneError, 1)
          else let s1 = (of_char (rest ! 0) :: nat) in
            if s1 < lo \<or> hi < s1 then (RuneError, 1)
            else if sz \<le> 2 then (int (s0 mod 32 * 64 + s1 mod 64), 2)
            else let s2 = (of_char (rest ! 1) :: nat) in
              if s2 < 0x80 \<or> 0xBF < s2 then (RuneError, 1)
              else if sz \<le> 3 then
                (int (s0 mod 16 * 4096 + s1 mod 64 * 64 + s2 mod 64), 3)
              else let s3 = (of_char (rest ! 2) :: nat) in
                if s3 < 0x80 \<or> 0xBF < s3 then (RuneError, 1)
                else (int (s0 mod 8 * 262144 + s1 mod 64 * 4096
                            + s2 mod 64 * 64 + s3 mod 64), 4))"

text \<open>
  \<open>for i, r := range s { if f(r) { return i } }; return -1\<close>: \<open>i\<close> is the byte
  offset of the rune \<open>r\<close>, and the next iteration starts after the rune's bytes.
\<close>

function indexFunc :: "(rune \<Rightarrow> bool) \<Rightarrow> nat \<Rightarrow> string \<Rightarrow> int" where
  "indexFunc f i s =
     (if s = [] then - 1
      else if f (fst (DecodeRuneInString s)) then int i
      else indexFunc f (i + snd (DecodeRuneInString s))
             (drop (snd (DecodeRuneInString s)) s))"
  by pat_completeness auto
termination
proof (relation "measure (\<lambda>(f, i, s). length s)")
  show "wf (measure (\<lambda>(f, i, s). length s))"
    by simp
next
  fix f :: "rune \<Rightarrow> bool" and i :: nat and s :: string
  assume "s \<noteq> []"
  then obtain c0 rest where s: "s = c0 # rest"
    by (cases s) auto
  have "1 \<le> snd (DecodeRuneInString (c0 # rest))"
    by (auto simp: Let_def split: lead.splits)
  with s show "((f, i + snd (DecodeRuneInString s), drop (snd (DecodeRuneInString s)) s),
                f, i, s) \<in> measure (\<lambda>(f, i, s). length s)"
    by simp
qed

definition IndexFunc :: "string \<Rightarrow> (rune \<Rightarrow> bool) \<Rightarrow> int" where
  "IndexFunc s f = indexFunc f 0 s"

subsection \<open>The built-in copy\<close>

text \<open>
  \<open>copy(dst, src)\<close> overwrites the first \<open>min (len dst) (len src)\<close> bytes of
  \<open>dst\<close> and leaves the rest of \<open>dst\<close> as it was.
\<close>

definition copy_bytes :: "'a list \<Rightarrow> 'a list \<Rightarrow> 'a list" where
  "copy_bytes dst src =
     take (min (length dst) (length src)) src @ drop (min (length dst) (length src)) dst"

section \<open>syscalls.go: kernel object names\<close>

definition bpfObjNameLen :: nat where
  "bpfObjNameLen = 16"

text \<open>
  \<open>type bpfObjName [bpfObjNameLen]byte\<close>: a list of 16 bytes; \<open>bpfObjName{}\<close> is
  the array of 16 zero bytes.
\<close>

type_synonym bpfObjName = "char list"

definition zeroObjName :: bpfObjName where
  "zeroObjName = replicate bpfObjNameLen (CHR 0x00)"

definition invalidBPFObjNameChar :: "rune \<Rightarrow> bool" where
  "invalidBPFObjNameChar ch =
     (if 0x41 \<le> ch \<and> ch \<le> 0x5A then False
      else if 0x61 \<le> ch \<and> ch \<le> 0x7A then False
      else if 0x30 \<le> ch \<and> ch \<le> 0x39 then False
      else if ch = 0x5F then False
      else True)"

text \<open>
  \<open>newBPFObjName\<close> returns the pair \<open>(bpfObjName, error)\<close> of the Go function.
  \<open>copy(result[:bpfObjNameLen-1], name)\<close> writes into the first 15 bytes of
  \<open>result\<close> only; byte 15 keeps its zero.
\<close>

definition newBPFObjName :: "string \<Rightarrow> bpfObjName \<times> error option" where
  "newBPFObjName name =
     (let idx = IndexFunc name invalidBPFObjNameChar in
      if idx \<noteq> - 1
      then (zeroObjName, Some (InvalidNameChar (name ! nat idx) name))
      else (copy_bytes (take (bpfObjNameLen - 1) zeroObjName) name
              @ drop (bpfObjNameLen - 1) zeroObjName, None))"

text \<open>
  The set \<open>[A-Za-z0-9_]\<close> of the specification, on the bytes of a name.
\<close>

definition nameByte :: "char \<Rightarrow> bool" where
  "nameByte c \<longleftrightarrow>
     (let b = (of_char c :: nat) in
      (0x41 \<le> b \<and> b \<le> 0x5A) \<or> (0x61 \<le> b \<and> b \<le> 0x7A)
        \<or> (0x30 \<le> b \<and> b \<le> 0x39) \<or> b = 0x5F)"

text \<open>
  \<open>runes\<close> is the conversion \<open>[]rune(s)\<close>: the characters of a string, in order,
  as the same decoder yields them.
\<close>

function runes :: "string \<Rightarrow> rune list" where
  "runes s =
     (if s = [] then []
      else fst (DecodeRuneInString s) # runes (drop (snd (DecodeRuneInString s)) s))"
  by pat_completeness auto
termination
proof (relation "measure length")
  show "wf (measure (length :: string \<Rightarrow> nat))"
    by simp
next
  fix s :: string
  assume "s \<noteq> []"
  then obtain c0 rest where s: "s = c0 # rest"
    by (cases s) auto
  have "1 \<le> snd (DecodeRuneInString (c0 # rest))"
    by (auto simp: Let_def split: lead.splits)
  with s show "(drop (snd (DecodeRuneInString s)) s, s) \<in> measure length"
    by simp
qed

text \<open>
  The error of \<open>newBPFObjName\<close> is
  \<open>errors.Errorf("invalid character '%c' in name '%s'", name[idx], name)\<close>, the
  constructor \<open>InvalidNameChar (name[idx]) name\<close>. The operand \<open>name[idx]\<close> is
  a \<open>uint8\<close>, and the verb \<open>%c\<close> of package \<open>fmt\<close> prints the character whose
  code point is its integer operand: \<open>verb_c b\<close> is the character that the message
  shows for the byte \<open>b\<close>.
\<close>

definition verb_c :: "char \<Rightarrow> rune" where
  "verb_c b = int (of_char b)"

section \<open>The instruction model\<close>

text \<open>
  Package \<open>asm\<close> (the instruction type and its codec) is imported by \<open>prog.go\<close> but
  is not among the sources; what follows is modelled from the specification.
\<close>

type_synonym byte = "8 word"

datatype ByteOrder = LittleEndian | BigEndian

text \<open>
  Modelled from the spec: the missing type \<open>asm.Instruction\<close>. The specification
  gives a logical instruction an opcode (8 bits), a destination and a source register
  (4 bits each), an offset (16 bits, signed), a constant that is a full 64-bit signed
  integer (read with \<open>sint\<close>), and two optional labels, the reference and the symbol.
\<close>

record Instruction =
  OpCode :: "8 word"
  DstRegister :: "4 word"
  SrcRegister :: "4 word"
  Offset :: "16 word"
  Constant :: "64 word"
  Reference :: "string option"
  Symbol :: "string option"

text \<open>
  Modelled from the spec: the missing opcode constants. The specification names the
  64-bit immediate load, the call and the exit without their numbers; these are the
  numbers of the eBPF encoding (\<open>0x18\<close> is also the first byte of the specification's
  own decoding scenario), and \<open>1\<close> is the source-register marker of a pseudo-call.
\<close>

definition LdDW :: "8 word" where
  "LdDW = 0x18"

definition Call :: "8 word" where
  "Call = 0x85"

definition Exit :: "8 word" where
  "Exit = 0x95"

definition PseudoCall :: "4 word" where
  "PseudoCall = 1"

definition InstructionSize :: nat where
  "InstructionSize = 8"

text \<open>
  Modelled from the spec: the wire count of an instruction, 2 for a 64-bit immediate
  load and 1 otherwise, and the wire-slot length of a sequence, the sum of the counts.
\<close>

definition slots :: "Instruction \<Rightarrow> nat" where
  "slots ins = (if OpCode ins = LdDW then 2 else 1)"

definition wire_slots :: "Instruction list \<Rightarrow> nat" where
  "wire_slots insns = sum_list (map slots insns)"

text \<open>\<open>encoding/binary\<close>: fixed-size integers in a byte order.\<close>

definition PutUint16 :: "ByteOrder \<Rightarrow> 16 word \<Rightarrow> byte list" where
  "PutUint16 bo v =
     (let le = [ucast v, ucast (drop_bit 8 v)]
      in if bo = LittleEndian then le else rev le)"

definition PutUint32 :: "ByteOrder \<Rightarrow> 32 word \<Rightarrow> byte list" where
  "PutUint32 bo v =
     (let le = [ucast v, ucast (drop_bit 8 v), ucast (drop_bit 16 v), ucast (drop_bit 24 v)]
      in if bo = LittleEndian then le else rev le)"

definition Uint16 :: "ByteOrder \<Rightarrow> byte list \<Rightarrow> 16 word" where
  "Uint16 bo b =
     (let le = (if bo = LittleEndian then b else rev b)
      in ucast (le ! 0) OR push_bit 8 (ucast (le ! 1)))"

definition Uint32 :: "ByteOrder \<Rightarrow> byte list \<Rightarrow> 32 word" where
  "Uint32 bo b =
     (let le = (if bo = LittleEndian then b else rev b)
      in ucast (le ! 0) OR push_bit 8 (ucast (le ! 1))
           OR push_bit 16 (ucast (le ! 2)) OR push_bit 24 (ucast (le ! 3)))"

text \<open>
  Modelled from the spec: one wire slot, eight bytes: the opcode, the two registers in
  one byte (the destination in the low half), the offset, the immediate.
\<close>

definition putSlot ::
  "ByteOrder \<Rightarrow> 8 word \<Rightarrow> 4 word \<Rightarrow> 4 word \<Rightarrow> 16 word \<Rightarrow> 32 word \<Rightarrow> byte list" where
  "putSlot bo opc dst src off imm =
     [opc, ucast dst OR push_bit 4 (ucast src)] @ PutUint16 bo off @ PutUint32 bo imm"

text \<open>
  Modelled from the spec: the missing \<open>Instructions.Marshal\<close>. The encoder emits one
  slot per logical instruction, except for a 64-bit immediate load: its first slot
  carries the low 32 bits of the constant and a second slot, with opcode zero, the
  high 32 bits. A pseudo-call that still carries its reference label is unresolved,
  and submitting it fails with undefined-symbol.
\<close>

definition marshalInstruction :: "ByteOrder \<Rightarrow> Instruction \<Rightarrow> error + byte list" where
  "marshalInstruction bo ins =
     (if OpCode ins = Call \<and> SrcRegister ins = PseudoCall \<and> Reference ins \<noteq> None
      then Inl (UndefinedSymbol (case Reference ins of Some r \<Rightarrow> r | None \<Rightarrow> []))
      else if OpCode ins = LdDW
      then Inr (putSlot bo (OpCode ins) (DstRegister ins) (SrcRegister ins) (Offset ins)
                  (ucast (Constant ins))
                @ putSlot bo 0 0 0 0 (ucast (drop_bit 32 (Constant ins))))
      else Inr (putSlot bo (OpCode ins) (DstRegister ins) (SrcRegister ins) (Offset ins)
                  (ucast (Constant ins))))"

fun Marshal :: "Instruction list \<Rightarrow> ByteOrder \<Rightarrow> error + byte list" where
  "Marshal [] bo = Inr []"
| "Marshal (ins # insns) bo =
     (case marshalInstruction bo ins of
        Inl err \<Rightarrow> Inl err
      | Inr b \<Rightarrow> (case Marshal insns bo of Inl err \<Rightarrow> Inl err | Inr bs \<Rightarrow> Inr (b @ bs)))"

text \<open>
  Modelled from the spec: reading one wire slot of the missing decoder. A slot is
  eight bytes: the opcode, the byte of the two registers, the offset and the
  immediate, the last two in the byte order given.
\<close>

definition getSlot :: "ByteOrder \<Rightarrow> byte list \<Rightarrow> 8 word \<times> 8 word \<times> 16 word \<times> 32 word" where
  "getSlot bo b = (b ! 0, b ! 1, Uint16 bo (take 2 (drop 2 b)), Uint32 bo (take 4 (drop 4 b)))"

text \<open>
  Modelled from the spec: the logical instruction that the missing decoder builds from
  a slot. The destination register is the low half of the register byte, the source
  register the high half; a decoded instruction carries no label.
\<close>

definition newInstruction :: "8 word \<Rightarrow> 8 word \<Rightarrow> 16 word \<Rightarrow> 64 word \<Rightarrow> Instruction" where
  "newInstruction opc regs off cons =
     \<lparr>OpCode = opc, DstRegister = ucast regs, SrcRegister = ucast (drop_bit 4 regs),
      Offset = off, Constant = cons, Reference = None, Symbol = None\<rparr>"

text \<open>
  Modelled from the spec: the loop of the missing decoder \<open>loadInstructions\<close>. For a
  64-bit immediate load the decoder also consumes the following slot, which must be
  zero but for its immediate, and combines the two immediates, both as unsigned 32-bit
  values, the low half from the first slot and the high half from the second; the
  64-bit word is the signed constant. Another instruction has the signed value of its
  32-bit immediate as constant. The codec fails with malformed-instruction when the
  remaining bytes are shorter than one slot, when a 64-bit load is truncated, and when
  its trailing slot is not zero.
\<close>

function decode :: "ByteOrder \<Rightarrow> byte list \<Rightarrow> error + Instruction list" where
  "decode bo data =
     (if data = [] then Inr []
      else if length data < 8 then Inl MalformedInstruction
      else case getSlot bo (take 8 data) of (opc, regs, off, imm) \<Rightarrow>
        if opc = LdDW
        then if length data < 16 then Inl MalformedInstruction
             else case getSlot bo (take 8 (drop 8 data)) of (opc2, regs2, off2, imm2) \<Rightarrow>
               if opc2 \<noteq> 0 \<or> regs2 \<noteq> 0 \<or> off2 \<noteq> 0
               then Inl MalformedInstruction
               else (case decode bo (drop 16 data) of
                       Inl err \<Rightarrow> Inl err
                     | Inr insns \<Rightarrow>
                         Inr (newInstruction opc regs off
                                (ucast imm OR push_bit 32 (ucast imm2)) # insns))
        else (case decode bo (drop 8 data) of
                Inl err \<Rightarrow> Inl err
              | Inr insns \<Rightarrow> Inr (newInstruction opc regs off (scast imm) # insns)))"
  by pat_completeness auto
termination
  by (relation "measure (\<lambda>(bo, data). length data)") auto

text \<open>
  Modelled from the spec: the missing \<open>loadInstructions\<close>: the sequence of logical
  instructions and the number of bytes consumed.
\<close>

definition loadInstructions :: "ByteOrder \<Rightarrow> byte list \<Rightarrow> error + (Instruction list \<times> nat)" where
  "loadInstructions bo data =
     (case decode bo data of Inl err \<Rightarrow> Inl err | Inr insns \<Rightarrow> Inr (insns, length data))"

section \<open>The editor: linking\<close>

text \<open>
  The editor is not among the sources either; \<open>TestEditorLink\<close> calls its \<open>Link\<close>.
\<close>

text \<open>
  Modelled from the spec: a call site of the missing \<open>Link\<close>, a call instruction
  with a reference label; \<open>callRef\<close> gives the label.
\<close>

definition callRef :: "Instruction \<Rightarrow> string option" where
  "callRef ins = (if OpCode ins = Call then Reference ins else None)"

text \<open>
  Modelled from the spec: the end of a sub-program in the missing \<open>Link\<close>: the
  instructions through the first exit.
\<close>

fun throughExit :: "Instruction list \<Rightarrow> Instruction list" where
  "throughExit [] = []"
| "throughExit (ins # rest) = (if OpCode ins = Exit then [ins] else ins # throughExit rest)"

text \<open>
  Modelled from the spec: the sub-program of a symbol in the missing \<open>Link\<close>: the
  instructions of the library from the first instruction that carries the symbol
  label through the first subsequent exit.
\<close>

definition subProgram :: "Instruction list \<Rightarrow> string \<Rightarrow> Instruction list option" where
  "subProgram lib s =
     (case dropWhile (\<lambda>ins. Symbol ins \<noteq> Some s) lib of
        [] \<Rightarrow> None
      | ins # rest \<Rightarrow> Some (throughExit (ins # rest)))"

text \<open>
  Modelled from the spec: the patch of the missing \<open>Link\<close>. The immediate of a call
  at wire slot \<open>k\<close> becomes the signed distance from the slot after the call to
  the slot \<open>m\<close>; the call is resolved, so its reference label is cleared.
\<close>

definition patchCall :: "Instruction \<Rightarrow> nat \<Rightarrow> nat \<Rightarrow> Instruction" where
  "patchCall ins k m = ins\<lparr>Constant := word_of_int (int m - (int k + 1)), Reference := None\<rparr>"

text \<open>
  Modelled from the spec: the state of the missing \<open>Link\<close>, a work-list over the
  primary sequence: the sequence, the index of the next instruction to visit, the
  recorded wire-slot offset at which the sub-program of each symbol was appended, and
  the call sites resolved so far, each with its symbol.
\<close>

record linker =
  l_insns :: "Instruction list"
  l_pos :: nat
  l_offsets :: "string \<rightharpoonup> nat"
  l_sites :: "(nat \<times> string) list"

text \<open>
  Modelled from the spec: one visit of the missing \<open>Link\<close>. A call whose label is a
  symbol already appended is patched to the recorded offset, so that call sites of one
  symbol share one copy. A call whose label is a symbol of the library not yet
  appended has a copy of the sub-program appended to the sequence, the offset (the
  wire-slot length of the sequence before) recorded, and is patched. A call whose
  label is no symbol of the library is left untouched, or fails with
  undefined-symbol when linking is strict.
\<close>

definition link_step :: "bool \<Rightarrow> Instruction list \<Rightarrow> linker \<Rightarrow> error + linker" where
  "link_step strict lib st =
     (let i = l_pos st; ins = l_insns st ! i; k = wire_slots (take i (l_insns st)) in
      case callRef ins of
        None \<Rightarrow> Inr (st\<lparr>l_pos := i + 1\<rparr>)
      | Some s \<Rightarrow>
          (case l_offsets st s of
             Some m \<Rightarrow>
               Inr (st\<lparr>l_insns := (l_insns st)[i := patchCall ins k m], l_pos := i + 1,
                       l_sites := l_sites st @ [(i, s)]\<rparr>)
           | None \<Rightarrow>
               (case subProgram lib s of
                  None \<Rightarrow>
                    if strict then Inl (UndefinedSymbol s) else Inr (st\<lparr>l_pos := i + 1\<rparr>)
                | Some sub \<Rightarrow>
                    let m = wire_slots (l_insns st) in
                    Inr (st\<lparr>l_insns := (l_insns st @ sub)[i := patchCall ins k m],
                            l_pos := i + 1,
                            l_offsets := (l_offsets st)(s \<mapsto> m),
                            l_sites := l_sites st @ [(i, s)]\<rparr>))))"

text \<open>
  Modelled from the spec: the scan of the missing \<open>Link\<close>, left to right over the
  sequence, appended copies included. It ends: an append records a symbol of the
  library that had no offset yet, and every other visit moves on by one instruction.
\<close>

function link_scan :: "bool \<Rightarrow> Instruction list \<Rightarrow> linker \<Rightarrow> error + linker" where
  "link_scan strict lib st =
     (if length (l_insns st) \<le> l_pos st then Inr st
      else case link_step strict lib st of
             Inl err \<Rightarrow> Inl err
           | Inr st' \<Rightarrow> link_scan strict lib st')"
  by pat_completeness auto
termination
proof (relation "measures
    [\<lambda>(strict, lib, st).
        length (filter (\<lambda>s. l_offsets st s = None) (List.map_filter Symbol lib)),
     \<lambda>(strict, lib, st). length (l_insns st) - l_pos st]")
  show "wf (measures
    [\<lambda>(strict, lib, st).
        length (filter (\<lambda>s. l_offsets st s = None) (List.map_filter Symbol lib)),
     \<lambda>(strict :: bool, lib :: Instruction list, st :: linker).
        length (l_insns st) - l_pos st])"
    by simp
next
  fix strict :: bool and lib :: "Instruction list" and st st' :: linker
  assume pos: "\<not> length (l_insns st) \<le> l_pos st"
    and step: "link_step strict lib st = Inr st'"
  let ?syms = "List.map_filter Symbol lib"
  let ?free = "\<lambda>t. length (filter (\<lambda>s. l_offsets t s = None) ?syms)"
  have "?free st' < ?free st
      \<or> (?free st' = ?free st \<and> length (l_insns st') - l_pos st' < length (l_insns st) - l_pos st)"
  proof (cases "\<exists>s sub. callRef (l_insns st ! l_pos st) = Some s \<and> l_offsets st s = None
                    \<and> subProgram lib s = Some sub")
    case False
    then have "l_offsets st' = l_offsets st \<and> length (l_insns st') = length (l_insns st)
        \<and> l_pos st' = l_pos st + 1"
      using step by (auto simp: link_step_def Let_def split: option.splits if_splits)
    then show ?thesis
      using pos by simp
  next
    case True
    then obtain s sub where s: "callRef (l_insns st ! l_pos st) = Some s"
      "l_offsets st s = None" "subProgram lib s = Some sub"
      by blast
    then have off: "l_offsets st' = (l_offsets st)(s \<mapsto> wire_slots (l_insns st))"
      using step by (auto simp: link_step_def Let_def)
    have "dropWhile (\<lambda>ins. Symbol ins \<noteq> Some s) lib \<noteq> []"
    proof
      assume "dropWhile (\<lambda>ins. Symbol ins \<noteq> Some s) lib = []"
      with s(3) show False
        by (simp only: subProgram_def list.case option.distinct)
    qed
    then have "\<exists>ins \<in> set lib. Symbol ins = Some s"
      by (simp add: dropWhile_eq_Nil_conv)
    then have "s \<in> set ?syms"
      by (force simp: map_filter_def)
    with s(2) have mem: "s \<in> set (filter (\<lambda>x. l_offsets st x = None) ?syms)"
      by simp
    have "filter (\<lambda>x. l_offsets st' x = None) xs
        = filter (\<lambda>x. x \<noteq> s) (filter (\<lambda>x. l_offsets st x = None) xs)" for xs
      unfolding off by (induction xs) auto
    then have "?free st' < ?free st"
      using length_filter_less [OF mem, of "\<lambda>x. x \<noteq> s"] by simp
    then show ?thesis ..
  qed
  then show "((strict, lib, st'), strict, lib, st) \<in> measures
    [\<lambda>(strict, lib, st).
        length (filter (\<lambda>s. l_offsets st s = None) (List.map_filter Symbol lib)),
     \<lambda>(strict, lib, st). length (l_insns st) - l_pos st]"
    by auto
qed

text \<open>
  Modelled from the spec: the missing \<open>Editor.Link\<close>. The specification says that
  linking fails with cyclic-reference under a conservative check of the library and
  does not describe the check: it is the parameter \<open>cyclic\<close>. \<open>strict\<close> says
  whether the caller demanded strict linking.
\<close>

definition Link ::
  "(Instruction list \<Rightarrow> bool) \<Rightarrow> bool \<Rightarrow> Instruction list \<Rightarrow> Instruction list
     \<Rightarrow> error + Instruction list" where
  "Link cyclic strict insns lib =
     (if cyclic lib then Inl CyclicReference
      else case link_scan strict lib
                  \<lparr>l_insns = insns, l_pos = 0, l_offsets = Map.empty, l_sites = []\<rparr> of
             Inl err \<Rightarrow> Inl err
           | Inr st \<Rightarrow> Inr (l_insns st))"

text \<open>
  What holds of every state of the scan that starts from a primary sequence of
  \<open>n0\<close> instructions: every recorded offset is the wire slot of an appended
  instruction that carries the symbol, and every resolved call site is a call, already
  visited, whose constant is the distance to the recorded offset of its symbol.
\<close>

definition link_inv :: "nat \<Rightarrow> linker \<Rightarrow> bool" where
  "link_inv n0 st \<longleftrightarrow>
     n0 \<le> length (l_insns st)
     \<and> (\<forall>s m. l_offsets st s = Some m \<longrightarrow>
           (\<exists>j. n0 \<le> j \<and> j < length (l_insns st) \<and> Symbol (l_insns st ! j) = Some s
                \<and> wire_slots (take j (l_insns st)) = m))
     \<and> (\<forall>i s. (i, s) \<in> set (l_sites st) \<longrightarrow>
           i < l_pos st \<and> i < length (l_insns st) \<and> OpCode (l_insns st ! i) = Call
           \<and> (\<exists>m. l_offsets st s = Some m
                  \<and> Constant (l_insns st ! i)
                      = word_of_int (int m - (int (wire_slots (take i (l_insns st))) + 1))))"

text \<open>
  What also holds of every state of that scan: the instructions of the primary
  sequence not yet visited are as they were, every call site of the primary sequence
  already visited is resolved or is left as it was because the library has no
  sub-program for its label, and only symbols of the library have an offset.
\<close>

definition link_cov :: "Instruction list \<Rightarrow> Instruction list \<Rightarrow> linker \<Rightarrow> bool" where
  "link_cov insns0 lib st \<longleftrightarrow>
     length insns0 \<le> length (l_insns st)
     \<and> (\<forall>i. l_pos st \<le> i \<and> i < length insns0 \<longrightarrow> l_insns st ! i = insns0 ! i)
     \<and> (\<forall>i s. i < l_pos st \<and> i < length insns0 \<and> callRef (insns0 ! i) = Some s \<longrightarrow>
           (i, s) \<in> set (l_sites st)
           \<or> (l_insns st ! i = insns0 ! i \<and> subProgram lib s = None))
     \<and> (\<forall>s m. l_offsets st s = Some m \<longrightarrow> subProgram lib s \<noteq> None)"

section \<open>syscalls.go: the bpf system call\<close>

text \<open>
  A Go call that can panic returns \<open>Panic\<close> or its results (\<open>Ret\<close>).
\<close>

datatype 'a go = Panic string | Ret 'a

definition EAGAIN :: nat where
  "EAGAIN = 11"

definition ENOSPC :: nat where
  "ENOSPC = 28"

text \<open>
  \<open>bpfProgLoadAttr\<close> and \<open>bpfMapCreateAttr\<close>, field by field. A \<open>syscallPtr\<close> to
  data the kernel only reads (the instructions, the license) is modelled by the bytes
  it points to; \<open>logBuf\<close> says whether the pointer to the log buffer is set, and the
  buffer itself is passed along with the call, since the kernel writes to it.
  \<open>ProgType\<close> and \<open>MapType\<close> are \<open>uint32\<close> enumerations declared outside the
  sources; only \<open>Array\<close> is used here, with its kernel number.
\<close>

record bpfProgLoadAttr =
  progType :: "32 word"
  insCount :: "32 word"
  instructions :: "byte list"
  license :: string
  logLevel :: "32 word"
  logSize :: "32 word"
  logBuf :: bool
  kernelVersion :: "32 word"
  progFlags :: "32 word"
  progName :: bpfObjName
  progIfIndex :: "32 word"
  expectedAttachType :: "32 word"

record bpfMapCreateAttr =
  mapType :: "32 word"
  keySize :: "32 word"
  valueSize :: "32 word"
  maxEntries :: "32 word"
  flags :: "32 word"
  innerMapFd :: "32 word"
  numaNode :: "32 word"
  mapName :: bpfObjName

definition Array :: "32 word" where
  "Array = 2"

text \<open>
  The kernel is a parameter: \<open>k n req\<close> is its answer to the \<open>n\<close>-th \<open>bpf\<close> system
  call of the process when that call is \<open>req\<close>: the result \<open>r1\<close>, the error
  number (0 for none) and the text it writes to the verifier log. The process state
  \<open>world\<close> counts the \<open>bpf\<close> calls made, lists the descriptors closed, and holds the
  memoised result of the \<open>haveObjName\<close> feature test.
\<close>

datatype request = ProgLoad bpfProgLoadAttr | MapCreate bpfMapCreateAttr

record sysret =
  r1 :: "64 word"
  errNo :: nat
  logOut :: string

type_synonym kernel = "nat \<Rightarrow> request \<Rightarrow> sysret"

record world =
  ncalls :: nat
  closed :: "64 word list"
  haveObjNameMemo :: "bool option"

text \<open>
  The kernel writes its log through \<open>logBuf\<close>, at most \<open>logSize\<close> bytes and never
  past the buffer; without the pointer it writes nothing.
\<close>

definition kernelWrite :: "request \<Rightarrow> string \<Rightarrow> string \<Rightarrow> string" where
  "kernelWrite req logs out =
     (case req of
        ProgLoad attr \<Rightarrow>
          if logBuf attr then copy_bytes logs (take (unat (logSize attr)) out) else logs
      | MapCreate _ \<Rightarrow> logs)"

text \<open>
  \<open>bpfCall\<close>: one system call; \<open>err\<close> is \<open>nil\<close> exactly when \<open>errNo\<close> is 0.
\<close>

definition errnoErr :: "nat \<Rightarrow> error option" where
  "errnoErr e = (if e \<noteq> 0 then Some (Errno e) else None)"

definition bpfCall ::
  "kernel \<Rightarrow> request \<Rightarrow> string \<Rightarrow> world \<Rightarrow> (64 word \<times> error option) \<times> string \<times> world" where
  "bpfCall k req logs w =
     (let ret = k (ncalls w) req
      in ((r1 ret, errnoErr (errNo ret)),
          kernelWrite req logs (logOut ret),
          w\<lparr>ncalls := ncalls w + 1\<rparr>))"

text \<open>
  \<open>bpfProgLoad\<close>: \<open>for { fd, err := bpfCall(...); if err != syscall.EAGAIN { return fd, err } }\<close>.
  The loop has no bound, so the function is partial: \<open>None\<close> is a loop that never
  ends.
\<close>

partial_function (option) bpfProgLoad ::
  "kernel \<Rightarrow> bpfProgLoadAttr \<Rightarrow> string \<Rightarrow> world
     \<Rightarrow> ((64 word \<times> error option) \<times> string \<times> world) option" where
  "bpfProgLoad k attr logs w =
     (case bpfCall k (ProgLoad attr) logs w of
        ((fd, err), logs', w') \<Rightarrow>
          if err \<noteq> Some (Errno EAGAIN) then Some ((fd, err), logs', w')
          else bpfProgLoad k attr logs' w')"

text \<open>
  The log buffer after \<open>n\<close> submissions of the same attribute, the first of them the
  \<open>c\<close>-th call of the process.
\<close>

primrec logsAfter :: "kernel \<Rightarrow> bpfProgLoadAttr \<Rightarrow> nat \<Rightarrow> string \<Rightarrow> nat \<Rightarrow> string" where
  "logsAfter k attr c logs 0 = logs"
| "logsAfter k attr c logs (Suc n) =
     kernelWrite (ProgLoad attr) (logsAfter k attr c logs n)
       (logOut (k (c + n) (ProgLoad attr)))"

definition bpfMapCreate ::
  "kernel \<Rightarrow> bpfMapCreateAttr \<Rightarrow> world \<Rightarrow> (64 word \<times> error option) \<times> world" where
  "bpfMapCreate k attr w =
     (case bpfCall k (MapCreate attr) [] w of (res, _, w') \<Rightarrow> (res, w'))"

text \<open>
  \<open>haveObjName.Fn\<close>: create a one-element array map with a name, close it again.
\<close>

definition haveObjName_Fn :: "kernel \<Rightarrow> world \<Rightarrow> bool \<times> world" where
  "haveObjName_Fn k w =
     (case newBPFObjName ''feature_test'' of
        (name, Some err) \<Rightarrow> (False, w)
      | (name, None) \<Rightarrow>
          (case bpfMapCreate k
                  \<lparr>mapType = Array, keySize = 4, valueSize = 4, maxEntries = 1, flags = 0,
                   innerMapFd = 0, numaNode = 0, mapName = name\<rparr> w of
             ((fd, Some err), w') \<Rightarrow> (False, w')
           | ((fd, None), w') \<Rightarrow> (True, w'\<lparr>closed := closed w' @ [fd]\<rparr>)))"

text \<open>
  Modelled from the spec: the missing \<open>featureTest.Result\<close>. A feature test is
  memoised per process: the probe runs on first use and its result is kept.
\<close>

definition haveObjName_Result :: "kernel \<Rightarrow> world \<Rightarrow> bool \<times> world" where
  "haveObjName_Result k w =
     (case haveObjNameMemo w of
        Some b \<Rightarrow> (b, w)
      | None \<Rightarrow>
          (case haveObjName_Fn k w of (b, w') \<Rightarrow> (b, w'\<lparr>haveObjNameMemo := Some b\<rparr>)))"

text \<open>
  \<open>bytes.IndexByte\<close> and \<open>convertCString\<close>: the bytes before the first zero byte, and
  the empty string when there is no zero byte.
\<close>

definition IndexByte :: "string \<Rightarrow> char \<Rightarrow> int" where
  "IndexByte b c = (if c \<in> set b then int (length (takeWhile (\<lambda>x. x \<noteq> c) b)) else - 1)"

definition convertCString :: "string \<Rightarrow> string" where
  "convertCString inp =
     (let inLen = IndexByte inp (CHR 0x00)
      in if inLen = - 1 then [] else take (nat inLen) inp)"

section \<open>prog.go: loading a program\<close>

definition DefaultVerifierLogSize :: nat where
  "DefaultVerifierLogSize = 64 * 1024"

record ProgramSpec =
  Name :: string
  Type :: "32 word"
  Instructions :: "Instruction list"
  License :: string
  KernelVersion :: "32 word"

record ProgramABI =
  abiType :: "32 word"

text \<open>
  The fields \<open>fd\<close>, \<open>name\<close> and \<open>abi\<close> of \<open>Program\<close> carry a prefix, to keep
  these names free for variables.
\<close>

record Program =
  prog_fd :: "32 word"
  prog_name :: string
  prog_abi :: ProgramABI

text \<open>
  \<open>errors.Cause\<close> follows \<open>Cause()\<close> as long as the error has one; \<open>errors.Wrap\<close>
  of \<open>nil\<close> is \<open>nil\<close>.
\<close>

fun Cause :: "error \<Rightarrow> error option" where
  "Cause (Wrap e msg) = Cause e"
| "Cause (LoadError None vlog) = None"
| "Cause (LoadError (Some e) vlog) = Cause e"
| "Cause e = Some e"

definition errors_Cause :: "error option \<Rightarrow> error option" where
  "errors_Cause err = (case err of None \<Rightarrow> None | Some e \<Rightarrow> Cause e)"

definition errors_Wrap :: "error option \<Rightarrow> string \<Rightarrow> error option" where
  "errors_Wrap err msg = (case err of None \<Rightarrow> None | Some e \<Rightarrow> Some (Wrap e msg))"

text \<open>
  \<open>convertProgramSpec\<close>. \<open>nativeEndian\<close> is the byte order of the host, a parameter
  here. \<open>&bytecode[0]\<close> and \<open>&lic[0]\<close> panic on an empty slice. The attribute is
  built before the name is checked; \<open>kernelVersion\<close> and the log fields are left at
  their zero values.
\<close>

definition convertProgramSpec ::
  "ByteOrder \<Rightarrow> ProgramSpec \<Rightarrow> bool \<Rightarrow> (error + bpfProgLoadAttr) go" where
  "convertProgramSpec nativeEndian spec includeName =
     (case Marshal (Instructions spec) nativeEndian of
        Inl err \<Rightarrow> Ret (Inl err)
      | Inr bytecode \<Rightarrow>
          let insCount = (word_of_nat (length bytecode div InstructionSize) :: 32 word);
              lic = License spec
          in if bytecode = [] then Panic ''index out of range''
             else if lic = [] then Panic ''index out of range''
             else let attr = \<lparr>progType = Type spec, insCount = insCount,
                               instructions = bytecode, license = lic,
                               logLevel = 0, logSize = 0, logBuf = False,
                               kernelVersion = 0, progFlags = 0,
                               progName = zeroObjName, progIfIndex = 0,
                               expectedAttachType = 0\<rparr>
                  in (case newBPFObjName (Name spec) of
                        (nm, Some err) \<Rightarrow> Ret (Inl err)
                      | (nm, None) \<Rightarrow>
                          Ret (Inr (if includeName then attr\<lparr>progName := nm\<rparr> else attr))))"

text \<open>
  \<open>NewProgram\<close> returns \<open>(*Program, error)\<close>, or panics, or (when a load is
  interrupted for ever) does not return: the result is \<open>None\<close> then. The new world
  comes with the result.
\<close>

definition NewProgram ::
  "ByteOrder \<Rightarrow> kernel \<Rightarrow> ProgramSpec \<Rightarrow> world
     \<Rightarrow> ((Program option \<times> error option) go \<times> world) option" where
  "NewProgram nativeEndian k spec w =
     (if length (Instructions spec) = 0
      then Some (Ret (None, Some (Errorf ''instructions cannot be empty'')), w)
      else
        case haveObjName_Result k w of
          (includeName, w1) \<Rightarrow>
            (case convertProgramSpec nativeEndian spec includeName of
               Panic msg \<Rightarrow> Some (Panic msg, w1)
             | Ret (Inl err) \<Rightarrow> Some (Ret (None, Some err), w1)
             | Ret (Inr attr) \<Rightarrow>
                 (case bpfProgLoad k attr [] w1 of
                    None \<Rightarrow> None
                  | Some ((fd, None), _, w2) \<Rightarrow>
                      Some (Ret (Some \<lparr>prog_fd = ucast fd, prog_name = Name spec,
                                        prog_abi = \<lparr>abiType = Type spec\<rparr>\<rparr>, None), w2)
                  | Some ((fd, Some err), _, w2) \<Rightarrow>
                      let logs = replicate DefaultVerifierLogSize (CHR 0x00);
                          attr' = attr\<lparr>logLevel := 1,
                                       logSize := word_of_nat (length logs),
                                       logBuf := True\<rparr>
                      in (case bpfProgLoad k attr' logs w2 of
                            None \<Rightarrow> None
                          | Some ((_, nerr), logs', w3) \<Rightarrow>
                              if errors_Cause nerr = Some (Errno ENOSPC)
                              then Some (Ret (None,
                                     errors_Wrap (Some err) ''no debug since LogSize too small''),
                                     w3)
                              else Some (Ret (None,
                                     Some (LoadError nerr (convertCString logs'))), w3)))))"

section \<open>Concrete kernels and inputs\<close>

text \<open>
  The instances of the theorems below run the code on these: a process that has made
  no call yet, the zero value of the load attribute, a kernel that answers the first
  two calls with \<open>EAGAIN\<close> and then succeeds with descriptor 5, and a kernel that
  answers \<open>EAGAIN\<close> for ever.
\<close>

definition world0 :: world where
  "world0 = \<lparr>ncalls = 0, closed = [], haveObjNameMemo = None\<rparr>"

definition zeroAttr :: bpfProgLoadAttr where
  "zeroAttr = \<lparr>progType = 0, insCount = 0, instructions = [], license = [],
      logLevel = 0, logSize = 0, logBuf = False, kernelVersion = 0, progFlags = 0,
      progName = zeroObjName, progIfIndex = 0, expectedAttachType = 0\<rparr>"

definition kernelAgainTwice :: kernel where
  "kernelAgainTwice i req =
     (if i < 2 then \<lparr>r1 = - 1, errNo = EAGAIN, logOut = []\<rparr>
      else \<lparr>r1 = 5, errNo = 0, logOut = []\<rparr>)"

definition kernelAgainForever :: kernel where
  "kernelAgainForever i req = \<lparr>r1 = - 1, errNo = EAGAIN, logOut = []\<rparr>"

text \<open>
  A program that only exits, so that the verifier refuses it (register 0 is not set),
  and the attribute that \<open>convertProgramSpec\<close> builds for it on a little-endian
  host when names are supported. \<open>kernelRejects\<close> creates maps (descriptor 3) and
  refuses every program with \<open>EINVAL\<close> (22) and the log \<open>R0 !read_ok\<close>;
  \<open>kernelNoSpace\<close> refuses a program with \<open>EINVAL\<close> when it has no log buffer,
  and with \<open>ENOSPC\<close> and a log of 70000 bytes, more than any buffer of 64 KiB
  holds, when it has one.
\<close>

definition exitSpec :: ProgramSpec where
  "exitSpec = \<lparr>Name = ''test'', Type = 1,
      Instructions = [\<lparr>OpCode = Exit, DstRegister = 0, SrcRegister = 0, Offset = 0,
                        Constant = 0, Reference = None, Symbol = None\<rparr>],
      License = ''MIT'', KernelVersion = 0\<rparr>"

definition exitAttr :: bpfProgLoadAttr where
  "exitAttr = \<lparr>progType = 1, insCount = 1, instructions = [0x95, 0, 0, 0, 0, 0, 0, 0],
      license = ''MIT'', logLevel = 0, logSize = 0, logBuf = False,
      kernelVersion = 0, progFlags = 0,
      progName = ''test'' @ replicate 12 (CHR 0x00), progIfIndex = 0,
      expectedAttachType = 0\<rparr>"

definition kernelRejects :: kernel where
  "kernelRejects i req =
     (case req of
        MapCreate a \<Rightarrow> \<lparr>r1 = 3, errNo = 0, logOut = []\<rparr>
      | ProgLoad a \<Rightarrow> \<lparr>r1 = - 1, errNo = 22, logOut = ''R0 !read_ok''\<rparr>)"

definition kernelNoSpace :: kernel where
  "kernelNoSpace i req =
     (case req of
        MapCreate a \<Rightarrow> \<lparr>r1 = 3, errNo = 0, logOut = []\<rparr>
      | ProgLoad a \<Rightarrow>
          if logBuf a
          then \<lparr>r1 = - 1, errNo = ENOSPC, logOut = replicate 70000 (CHR ''x'')\<rparr>
          else \<lparr>r1 = - 1, errNo = 22, logOut = []\<rparr>)"



text \<open>
  The instructions of \<open>TestEditorLink\<close>: a call with the label \<open>my_func\<close>, an
  exit, and the library instruction with the symbol \<open>my_func\<close>.
\<close>

definition linkCall :: Instruction where
  "linkCall = \<lparr>OpCode = Call, DstRegister = 0, SrcRegister = 1, Offset = 0, Constant = - 1,
      Reference = Some ''my_func'', Symbol = None\<rparr>"

definition linkExit :: Instruction where
  "linkExit = \<lparr>OpCode = Exit, DstRegister = 0, SrcRegister = 0, Offset = 0, Constant = 0,
      Reference = None, Symbol = None\<rparr>"

definition linkFunc :: Instruction where
  "linkFunc = \<lparr>OpCode = LdDW, DstRegister = 0, SrcRegister = 0, Offset = 0, Constant = 1337,
      Reference = None, Symbol = Some ''my_func''\<rparr>"

section \<open>Properties of kernel object names\<close>

text \<open>
  \<open>indexFunc\<close>, \<open>runes\<close>, \<open>decode\<close> and \<open>link_scan\<close> are unfolded by hand:
  their equations would rewrite their own right-hand sides for ever.
\<close>

declare indexFunc.simps [simp del]

declare runes.simps [simp del]

declare decode.simps [simp del]

declare link_scan.simps [simp del]

lemma DecodeRuneInString_ascii:
  "(of_char c0 :: nat) < 0x80 \<Longrightarrow>
     DecodeRuneInString (c0 # rest) = (int (of_char c0), 1)"
  by (simp add: utf8_first_def)

lemma lead2: "194 \<le> (b::nat) \<Longrightarrow> b < 224 \<Longrightarrow> 2 \<le> b mod 32"
proof -
  assume a: "194 \<le> b" "b < 224"
  have "b = (b - 192) + 6 * 32" using a by simp
  then have "b mod 32 = (b - 192) mod 32" by (metis mod_mult_self1)
  also have "\<dots> = b - 192" using a by simp
  finally show ?thesis using a by simp
qed

lemma lead3: "224 < (b::nat) \<Longrightarrow> b < 240 \<Longrightarrow> 1 \<le> b mod 16"
proof -
  assume a: "224 < b" "b < 240"
  have "b = (b - 224) + 14 * 16" using a by simp
  then have "b mod 16 = (b - 224) mod 16" by (metis mod_mult_self1)
  also have "\<dots> = b - 224" using a by simp
  finally show ?thesis using a by simp
qed

lemma lead4: "240 < (b::nat) \<Longrightarrow> b < 248 \<Longrightarrow> 1 \<le> b mod 8"
proof -
  assume a: "240 < b" "b < 248"
  have "b = (b - 240) + 30 * 8" using a by simp
  then have "b mod 8 = (b - 240) mod 8" by (metis mod_mult_self1)
  also have "\<dots> = b - 240" using a by simp
  finally show ?thesis using a by simp
qed

lemma cont_low: "lo \<le> (s::nat) \<Longrightarrow> s \<le> 191 \<Longrightarrow> 128 \<le> lo \<Longrightarrow> lo - 128 \<le> s mod 64"
proof -
  assume a: "lo \<le> s" "s \<le> 191" "128 \<le> lo"
  have "s = (s - 128) + 2 * 64" using a by simp
  then have "s mod 64 = (s - 128) mod 64" by (metis mod_mult_self1)
  also have "\<dots> = s - 128" using a by simp
  finally show ?thesis using a by simp
qed

lemma utf8_first_Lead2:
  "utf8_first b = Lead 2 lo hi \<Longrightarrow> 194 \<le> b \<and> b < 224"
  by (auto simp: utf8_first_def split: if_splits)

lemma utf8_first_Lead3:
  "utf8_first b = Lead 3 lo hi \<Longrightarrow>
     224 \<le> b \<and> b < 240 \<and> 128 \<le> lo \<and> hi \<le> 191 \<and> (b = 224 \<longrightarrow> lo = 160)"
  by (auto simp: utf8_first_def split: if_splits)

lemma utf8_first_Lead4:
  "utf8_first b = Lead 4 lo hi \<Longrightarrow>
     240 \<le> b \<and> b < 248 \<and> 128 \<le> lo \<and> hi \<le> 191 \<and> (b = 240 \<longrightarrow> lo = 144)"
  by (auto simp: utf8_first_def split: if_splits)

lemma utf8_first_size: "utf8_first b = Lead sz lo hi \<Longrightarrow> sz = 2 \<or> sz = 3 \<or> sz = 4"
  by (auto simp: utf8_first_def split: if_splits)

lemma rune2: "194 \<le> (b::nat) \<Longrightarrow> b < 224 \<Longrightarrow> 128 \<le> b mod 32 * 64 + x"
  using lead2 [of b] by linarith

lemma rune3:
  assumes "224 \<le> (b::nat)" "b < 240" "128 \<le> lo" "hi \<le> 191" "b = 224 \<longrightarrow> lo = 160"
    "lo \<le> s" "s \<le> hi"
  shows "128 \<le> b mod 16 * 4096 + s mod 64 * 64 + x"
proof (cases "b = 224")
  case True
  with assms cont_low [of lo s] have "32 \<le> s mod 64" by simp
  then show ?thesis by linarith
next
  case False
  with assms lead3 [of b] have "1 \<le> b mod 16" by simp
  then show ?thesis by linarith
qed

lemma rune4:
  assumes "240 \<le> (b::nat)" "b < 248" "128 \<le> lo" "hi \<le> 191" "b = 240 \<longrightarrow> lo = 144"
    "lo \<le> s" "s \<le> hi"
  shows "128 \<le> b mod 8 * 262144 + s mod 64 * 4096 + x"
proof (cases "b = 240")
  case True
  with assms cont_low [of lo s] have "16 \<le> s mod 64" by simp
  then show ?thesis by linarith
next
  case False
  with assms lead4 [of b] have "1 \<le> b mod 8" by simp
  then show ?thesis by linarith
qed

lemma DecodeRuneInString_high:
  assumes "0x80 \<le> (of_char c0 :: nat)"
  shows "0x80 \<le> fst (DecodeRuneInString (c0 # rest))"
proof (cases "utf8_first (of_char c0)")
  case AS
  then show ?thesis using assms by (simp add: utf8_first_def split: if_splits)
next
  case XX
  then show ?thesis by (simp add: RuneError_def)
next
  case (Lead sz lo hi)
  let ?r = "fst (DecodeRuneInString (c0 # rest))"
  let ?s0 = "of_char c0 :: nat"
  from utf8_first_size [OF Lead] show ?thesis
  proof (elim disjE)
    assume sz: "sz = 2"
    have "?r = RuneError \<or> (\<exists>x. ?r = int (?s0 mod 32 * 64 + x))"
      using Lead sz by (auto simp: Let_def)
    then show ?thesis
      using rune2 utf8_first_Lead2 [OF Lead [unfolded sz]]
      by (auto simp: RuneError_def simp del: DecodeRuneInString.simps of_nat_add of_nat_mult)
  next
    assume sz: "sz = 3"
    have "?r = RuneError \<or>
        (\<exists>s x. lo \<le> s \<and> s \<le> hi \<and> ?r = int (?s0 mod 16 * 4096 + s mod 64 * 64 + x))"
      using Lead sz by (auto simp: Let_def not_less)
    then show ?thesis
      using rune3 [of ?s0 lo hi] utf8_first_Lead3 [OF Lead [unfolded sz]]
      by (auto simp: RuneError_def simp del: DecodeRuneInString.simps of_nat_add of_nat_mult)
  next
    assume sz: "sz = 4"
    have "?r = RuneError \<or>
        (\<exists>s x. lo \<le> s \<and> s \<le> hi
           \<and> ?r = int (?s0 mod 8 * 262144 + s mod 64 * 4096 + x))"
    proof (cases "?r = RuneError")
      case False
      then have "lo \<le> of_char (rest ! 0) \<and> of_char (rest ! 0) \<le> hi \<and>
         ?r = int (?s0 mod 8 * 262144 + of_char (rest ! 0) mod 64 * 4096
            + (of_char (rest ! 1) mod 64 * 64 + of_char (rest ! 2) mod 64))"
        using Lead sz by (auto simp: Let_def not_less split: if_splits)
      then show ?thesis by blast
    qed simp
    then show ?thesis
      using rune4 [of ?s0 lo hi] utf8_first_Lead4 [OF Lead [unfolded sz]]
      by (auto simp: RuneError_def simp del: DecodeRuneInString.simps of_nat_add of_nat_mult)
  qed
qed

lemma nameByte_rune: "nameByte c \<longleftrightarrow> \<not> invalidBPFObjNameChar (int (of_char c))"
  by (auto simp: nameByte_def invalidBPFObjNameChar_def Let_def)

lemma nameByte_ascii: "nameByte c \<Longrightarrow> (of_char c :: nat) < 0x80"
  by (auto simp: nameByte_def Let_def)

lemma invalid_high: "0x80 \<le> r \<Longrightarrow> invalidBPFObjNameChar r"
  by (simp add: invalidBPFObjNameChar_def)

lemma invalid_first_rune:
  "\<not> nameByte c \<Longrightarrow> invalidBPFObjNameChar (fst (DecodeRuneInString (c # rest)))"
proof (cases "(of_char c :: nat) < 0x80")
  case True
  assume "\<not> nameByte c"
  then show ?thesis
    using True by (simp add: DecodeRuneInString_ascii nameByte_rune del: DecodeRuneInString.simps)
next
  case False
  then have "0x80 \<le> fst (DecodeRuneInString (c # rest))"
    by (intro DecodeRuneInString_high) simp
  then show ?thesis by (rule invalid_high)
qed

lemma indexFunc_Nil: "indexFunc f i [] = - 1"
  by (simp add: indexFunc.simps)

lemma indexFunc_nameByte:
  "nameByte c \<Longrightarrow>
     indexFunc invalidBPFObjNameChar i (c # s) = indexFunc invalidBPFObjNameChar (Suc i) s"
  using nameByte_rune [of c]
  by (subst indexFunc.simps)
     (simp add: DecodeRuneInString_ascii [OF nameByte_ascii] del: DecodeRuneInString.simps)

lemma indexFunc_bad:
  "\<not> nameByte c \<Longrightarrow> indexFunc invalidBPFObjNameChar i (c # s) = int i"
  by (subst indexFunc.simps) (simp add: invalid_first_rune del: DecodeRuneInString.simps)

lemma indexFunc_bytes:
  "indexFunc invalidBPFObjNameChar i s =
     (if list_all nameByte s then - 1 else int (i + length (takeWhile nameByte s)))"
  by (induction s arbitrary: i) (simp_all add: indexFunc_Nil indexFunc_nameByte indexFunc_bad)

lemma IndexFunc_bytes:
  "IndexFunc name invalidBPFObjNameChar =
     (if list_all nameByte name then - 1 else int (length (takeWhile nameByte name)))"
  by (simp add: IndexFunc_def indexFunc_bytes)

lemma zero_pad: "\<not> 15 \<le> (n::nat) \<Longrightarrow> replicate (16 - n) x = x # replicate (15 - n) x"
proof -
  assume "\<not> 15 \<le> n"
  then have "16 - n = Suc (15 - n)" by arith
  then show ?thesis by simp
qed

lemma newBPFObjName_bytes:
  "newBPFObjName name =
     (if list_all nameByte name
      then (take 15 name @ replicate (16 - min 15 (length name)) (CHR 0x00), None)
      else (replicate 16 (CHR 0x00),
            Some (InvalidNameChar (name ! length (takeWhile nameByte name)) name)))"
  by (simp add: newBPFObjName_def IndexFunc_bytes Let_def copy_bytes_def zeroObjName_def
      bpfObjNameLen_def min_def replicate_append_same zero_pad)

text \<open>
  The runes of a name are in \<open>[A-Za-z0-9_]\<close> exactly when its bytes are: a
  character of the set is one ASCII byte, and every byte from \<open>0x80\<close> on starts a
  rune that \<open>invalidBPFObjNameChar\<close> refuses. So \<open>list_all nameByte name\<close> says
  that the name contains only characters of the set, and
  \<open>length (takeWhile nameByte name)\<close> is the offset of the first character that is
  not.
\<close>

lemma takeWhile_nameByte_first:
  assumes "\<not> list_all nameByte name"
  shows "length (takeWhile nameByte name) < length name"
    and "\<not> nameByte (name ! length (takeWhile nameByte name))"
    and "\<forall>j < length (takeWhile nameByte name). nameByte (name ! j)"
proof -
  from assms have ex: "\<exists>c \<in> set name. \<not> nameByte c"
    by (simp add: list_all_iff)
  have "takeWhile nameByte name = take (length (takeWhile nameByte name)) name"
    by (rule takeWhile_eq_take)
  moreover have "takeWhile nameByte name \<noteq> name"
    using ex by (simp add: takeWhile_eq_all_conv)
  moreover have "length (takeWhile nameByte name) \<le> length name"
    by (rule length_takeWhile_le)
  ultimately show lt: "length (takeWhile nameByte name) < length name"
    by (cases "length (takeWhile nameByte name) = length name") simp_all
  then show "\<not> nameByte (name ! length (takeWhile nameByte name))"
    by (rule nth_length_takeWhile)
  show "\<forall>j < length (takeWhile nameByte name). nameByte (name ! j)"
    by (metis nth_mem set_takeWhileD takeWhile_nth)
qed

text \<open>
  Claim C9. Every name made of characters of \<open>[A-Za-z0-9_]\<close> only is accepted, and
  the 16-byte name returned for it ends in a zero byte (index 15): \<open>copy\<close> writes
  at most the first 15 bytes of the input, the bytes after them stay zero, and an input
  longer than 15 bytes is cut to its first 15 bytes, with no error.
\<close>

theorem newBPFObjName_nul_terminated:
  assumes "list_all nameByte name"
  shows "snd (newBPFObjName name) = None
     \<and> length (fst (newBPFObjName name)) = 16
     \<and> fst (newBPFObjName name) ! 15 = CHR 0x00
     \<and> take (min 15 (length name)) (fst (newBPFObjName name)) = take 15 name
     \<and> drop (min 15 (length name)) (fst (newBPFObjName name))
           = replicate (16 - min 15 (length name)) (CHR 0x00)
     \<and> (if 15 < length name
         then fst (newBPFObjName name) = take 15 name @ [CHR 0x00]
         else fst (newBPFObjName name) = name @ replicate (16 - length name) (CHR 0x00))"
proof -
  let ?n = "min 15 (length name)"
  have r: "newBPFObjName name = (take 15 name @ replicate (16 - ?n) (CHR 0x00), None)"
    using assms by (simp add: newBPFObjName_bytes)
  have "(take 15 name @ replicate (16 - ?n) (CHR 0x00)) ! 15 = CHR 0x00"
    by (simp add: nth_append min_def)
  moreover have "take ?n (take 15 name @ replicate (16 - ?n) (CHR 0x00)) = take 15 name"
    by (simp add: min_def)
  moreover have "drop ?n (take 15 name @ replicate (16 - ?n) (CHR 0x00))
      = replicate (16 - ?n) (CHR 0x00)"
    by (simp add: min_def)
  moreover have "length (take 15 name @ replicate (16 - ?n) (CHR 0x00)) = 16"
    by (simp add: min_def)
  ultimately show ?thesis
    using r by (simp add: min_def)
qed

theorem newBPFObjName_nul_terminated_witness:
  "list_all nameByte ''a_16_byte_name_x''
     \<and> snd (newBPFObjName ''a_16_byte_name_x'') = None
     \<and> fst (newBPFObjName ''a_16_byte_name_x'') ! 15 = CHR 0x00
     \<and> fst (newBPFObjName ''a_16_byte_name_x'') = ''a_16_byte_name_'' @ [CHR 0x00]"
proof -
  have h: "list_all nameByte ''a_16_byte_name_x''"
    by (simp add: nameByte_def)
  show ?thesis
    using h newBPFObjName_nul_terminated [OF h] by simp
qed

text \<open>
  Claim C1, as stated: a name longer than 15 characters is refused with an invalid-name
  error. The code does not do that. The 16-character name \<open>0123456789abcdef\<close> is
  accepted and cut to 15 bytes.
\<close>

theorem newBPFObjName_overlong_counterexample:
  "15 < length ''0123456789abcdef''
     \<and> list_all nameByte ''0123456789abcdef''
     \<and> newBPFObjName ''0123456789abcdef'' = (''0123456789abcde'' @ [CHR 0x00], None)"
  by (simp add: newBPFObjName_bytes nameByte_def)

text \<open>
  Claim C1, amended. For a name longer than 15 bytes the length is never a reason to
  fail: when every character is in \<open>[A-Za-z0-9_]\<close> the call returns no error
  and the name cut to its first 15 bytes, followed by a zero byte; otherwise the only
  error is the invalid-character error.
\<close>

theorem newBPFObjName_overlong:
  assumes "15 < length name"
  shows "newBPFObjName name =
     (if list_all nameByte name then (take 15 name @ [CHR 0x00], None)
      else (zeroObjName,
            Some (InvalidNameChar (name ! length (takeWhile nameByte name)) name)))"
  using assms
  by (simp add: newBPFObjName_bytes zeroObjName_def bpfObjNameLen_def min_def)

theorem newBPFObjName_overlong_witness:
  "15 < length ''xdp_prog_with_a_long_name''
     \<and> newBPFObjName ''xdp_prog_with_a_long_name'' = (''xdp_prog_with_a'' @ [CHR 0x00], None)"
proof -
  have h: "15 < length ''xdp_prog_with_a_long_name''"
    by simp
  show ?thesis
    using h newBPFObjName_overlong [OF h] by (simp add: nameByte_def)
qed

text \<open>
  What \<open>newBPFObjName\<close> does with a name that has a character outside
  \<open>[A-Za-z0-9_]\<close>: it returns the zero name and an error; the error carries
  \<open>name[idx]\<close>, the byte at the offset \<open>idx\<close> where the first such character
  starts (every byte before it is in the set, this one is not), and the name. A name
  with only characters of the set gives no error.
\<close>

lemma newBPFObjName_invalid_bytes:
  "(\<not> list_all nameByte name \<longrightarrow>
      length (takeWhile nameByte name) < length name
      \<and> \<not> nameByte (name ! length (takeWhile nameByte name))
      \<and> (\<forall>j < length (takeWhile nameByte name). nameByte (name ! j))
      \<and> newBPFObjName name =
          (zeroObjName,
           Some (InvalidNameChar (name ! length (takeWhile nameByte name)) name)))
   \<and> (list_all nameByte name \<longrightarrow> snd (newBPFObjName name) = None)"
  using takeWhile_nameByte_first [of name]
  by (simp add: newBPFObjName_bytes zeroObjName_def bpfObjNameLen_def)

text \<open>
  When the first character outside the set is an ASCII character, it is one byte, and
  the character that the message shows is that character.
\<close>

lemma newBPFObjName_invalid_ascii:
  assumes "\<not> list_all nameByte name"
    and "(of_char (name ! length (takeWhile nameByte name)) :: nat) < 0x80"
  shows "verb_c (name ! length (takeWhile nameByte name))
     = fst (DecodeRuneInString (drop (length (takeWhile nameByte name)) name))"
proof -
  let ?i = "length (takeWhile nameByte name)"
  have "?i < length name"
    using assms(1) by (rule takeWhile_nameByte_first)
  then have "drop ?i name = name ! ?i # drop (Suc ?i) name"
    by (simp add: Cons_nth_drop_Suc)
  then show ?thesis
    using assms(2)
    by (simp add: DecodeRuneInString_ascii verb_c_def del: DecodeRuneInString.simps)
qed

lemma DecodeRuneInString_e_acute: "DecodeRuneInString [CHR 0xC3, CHR 0xA9] = (233, 2)"
  by (simp add: utf8_first_def)

lemma runes_e_acute: "runes [CHR 0xC3, CHR 0xA9] = [233]"
  by (subst runes.simps, simp only: DecodeRuneInString_e_acute, simp, subst runes.simps, simp)

text \<open>
  Claim C2. The claim says that the error identifies the first character outside
  \<open>[A-Za-z0-9_]\<close>. For a character of more than one byte the code does not: the
  message is built from the single byte \<open>name[idx]\<close>. The name made of the
  letter e with an acute accent is, in UTF-8, the two bytes \<open>C3 A9\<close>, the one
  character U+00E9 (233). \<open>newBPFObjName\<close>
  refuses it, with the zero name, but the error carries the byte \<open>C3\<close>, which
  \<open>%c\<close> shows as U+00C3 (195), a character that does not occur in the name.
\<close>

theorem newBPFObjName_invalid_character_nonascii:
  "runes [CHR 0xC3, CHR 0xA9] = [233]
     \<and> invalidBPFObjNameChar 233
     \<and> IndexFunc [CHR 0xC3, CHR 0xA9] invalidBPFObjNameChar = 0
     \<and> newBPFObjName [CHR 0xC3, CHR 0xA9]
         = (zeroObjName, Some (InvalidNameChar (CHR 0xC3) [CHR 0xC3, CHR 0xA9]))
     \<and> verb_c (CHR 0xC3) = 195
     \<and> verb_c (CHR 0xC3) \<notin> set (runes [CHR 0xC3, CHR 0xA9])"
  by (simp add: runes_e_acute invalidBPFObjNameChar_def IndexFunc_bytes newBPFObjName_bytes
      nameByte_def verb_c_def zeroObjName_def bpfObjNameLen_def)

section \<open>Properties of the load system call\<close>

text \<open>
  The answers of the kernel decide what \<open>bpfProgLoad\<close> does: a call answered with
  \<open>EAGAIN\<close> is followed by the next call, with the same attribute; any other answer
  is returned.
\<close>

lemma logsAfter_shift:
  "logsAfter k attr c logs (Suc n) =
     logsAfter k attr (Suc c) (kernelWrite (ProgLoad attr) logs (logOut (k c (ProgLoad attr)))) n"
  by (induction n) simp_all

lemma errnoErr_EAGAIN: "errnoErr e = Some (Errno EAGAIN) \<longleftrightarrow> e = EAGAIN"
  by (auto simp: errnoErr_def EAGAIN_def)

lemma bpfProgLoad_done:
  "errNo (k (ncalls w) (ProgLoad attr)) \<noteq> EAGAIN \<Longrightarrow>
     bpfProgLoad k attr logs w =
       Some ((r1 (k (ncalls w) (ProgLoad attr)), errnoErr (errNo (k (ncalls w) (ProgLoad attr)))),
             kernelWrite (ProgLoad attr) logs (logOut (k (ncalls w) (ProgLoad attr))),
             w\<lparr>ncalls := ncalls w + 1\<rparr>)"
  by (subst bpfProgLoad.simps) (simp add: bpfCall_def Let_def errnoErr_EAGAIN)

lemma bpfProgLoad_again:
  "errNo (k (ncalls w) (ProgLoad attr)) = EAGAIN \<Longrightarrow>
     bpfProgLoad k attr logs w =
       bpfProgLoad k attr (kernelWrite (ProgLoad attr) logs (logOut (k (ncalls w) (ProgLoad attr))))
         (w\<lparr>ncalls := ncalls w + 1\<rparr>)"
  by (subst bpfProgLoad.simps) (simp add: bpfCall_def Let_def errnoErr_EAGAIN)

lemma bpfProgLoad_returns:
  "(\<forall>j<n. errNo (k (ncalls w + j) (ProgLoad attr)) = EAGAIN) \<Longrightarrow>
   errNo (k (ncalls w + n) (ProgLoad attr)) \<noteq> EAGAIN \<Longrightarrow>
     bpfProgLoad k attr logs w =
       Some ((r1 (k (ncalls w + n) (ProgLoad attr)),
              errnoErr (errNo (k (ncalls w + n) (ProgLoad attr)))),
             logsAfter k attr (ncalls w) logs (Suc n),
             w\<lparr>ncalls := ncalls w + Suc n\<rparr>)"
proof (induction n arbitrary: logs w)
  case 0
  then show ?case by (simp add: bpfProgLoad_done)
next
  case (Suc n)
  let ?w = "w\<lparr>ncalls := ncalls w + 1\<rparr>"
  let ?logs = "kernelWrite (ProgLoad attr) logs (logOut (k (ncalls w) (ProgLoad attr)))"
  from Suc.prems(1) [rule_format, of 0] have first: "errNo (k (ncalls w) (ProgLoad attr)) = EAGAIN"
    by simp
  have rest: "\<forall>j<n. errNo (k (ncalls ?w + j) (ProgLoad attr)) = EAGAIN"
  proof (intro allI impI)
    fix j assume "j < n"
    then have "Suc j < Suc n" by simp
    from Suc.prems(1) [rule_format, OF this]
    show "errNo (k (ncalls ?w + j) (ProgLoad attr)) = EAGAIN" by simp
  qed
  have last: "errNo (k (ncalls ?w + n) (ProgLoad attr)) \<noteq> EAGAIN"
    using Suc.prems(2) by simp
  have step: "bpfProgLoad k attr logs w = bpfProgLoad k attr ?logs ?w"
    using first bpfProgLoad_again [of k w attr logs] by simp
  have "bpfProgLoad k attr ?logs ?w =
       Some ((r1 (k (ncalls ?w + n) (ProgLoad attr)),
              errnoErr (errNo (k (ncalls ?w + n) (ProgLoad attr)))),
             logsAfter k attr (ncalls ?w) ?logs (Suc n),
             ?w\<lparr>ncalls := ncalls ?w + Suc n\<rparr>)"
    using rest last by (rule Suc.IH)
  moreover have "logsAfter k attr (ncalls ?w) ?logs (Suc n)
      = logsAfter k attr (ncalls w) logs (Suc (Suc n))"
    by (simp add: logsAfter_shift [of k attr "ncalls w" logs "Suc n"] del: logsAfter.simps)
  ultimately show ?case
    using step by (simp del: logsAfter.simps)
qed

lemma bpfProgLoad_Some_first:
  assumes "bpfProgLoad k attr logs w = Some res"
  shows "\<exists>n. (\<forall>j<n. errNo (k (ncalls w + j) (ProgLoad attr)) = EAGAIN)
       \<and> errNo (k (ncalls w + n) (ProgLoad attr)) \<noteq> EAGAIN"
  using assms
proof (induct rule: bpfProgLoad.raw_induct [rotated 1, consumes 1])
  case (1 f k attr logs w res)
  show ?case
  proof (cases "errNo (k (ncalls w) (ProgLoad attr)) = EAGAIN")
    case False
    then have "(\<forall>j<0. errNo (k (ncalls w + j) (ProgLoad attr)) = EAGAIN)
       \<and> errNo (k (ncalls w + 0) (ProgLoad attr)) \<noteq> EAGAIN"
      by simp
    then show ?thesis by (rule exI)
  next
    case True
    let ?w = "w\<lparr>ncalls := ncalls w + 1\<rparr>"
    let ?logs = "kernelWrite (ProgLoad attr) logs (logOut (k (ncalls w) (ProgLoad attr)))"
    have call: "bpfCall k (ProgLoad attr) logs w = ((r1 (k (ncalls w) (ProgLoad attr)), Some (Errno EAGAIN)), ?logs, ?w)"
      using True by (simp add: bpfCall_def Let_def errnoErr_def EAGAIN_def)
    have "f k attr ?logs ?w = Some res"
      using 1(2) unfolding call by simp
    then have "\<exists>n. (\<forall>j<n. errNo (k (ncalls ?w + j) (ProgLoad attr)) = EAGAIN)
       \<and> errNo (k (ncalls ?w + n) (ProgLoad attr)) \<noteq> EAGAIN"
      by (rule 1(1))
    then obtain n where
      n1: "\<forall>j<n. errNo (k (ncalls ?w + j) (ProgLoad attr)) = EAGAIN" and
      n2: "errNo (k (ncalls ?w + n) (ProgLoad attr)) \<noteq> EAGAIN"
      by (elim exE conjE)
    have "\<forall>j<Suc n. errNo (k (ncalls w + j) (ProgLoad attr)) = EAGAIN"
    proof (intro allI impI)
      fix j assume j: "j < Suc n"
      show "errNo (k (ncalls w + j) (ProgLoad attr)) = EAGAIN"
      proof (cases j)
        case 0
        then show ?thesis using True by simp
      next
        case (Suc i)
        then have "i < n" using j by simp
        from n1 [rule_format, OF this] show ?thesis using Suc by simp
      qed
    qed
    moreover have "errNo (k (ncalls w + Suc n) (ProgLoad attr)) \<noteq> EAGAIN"
      using n2 by simp
    ultimately have "(\<forall>j<Suc n. errNo (k (ncalls w + j) (ProgLoad attr)) = EAGAIN)
        \<and> errNo (k (ncalls w + Suc n) (ProgLoad attr)) \<noteq> EAGAIN"
      by (rule conjI)
    then show ?thesis by (rule exI)
  qed
qed

lemma bpfProgLoad_never:
  "(\<forall>j. errNo (k (ncalls w + j) (ProgLoad attr)) = EAGAIN) \<Longrightarrow>
     bpfProgLoad k attr logs w = None"
proof (cases "bpfProgLoad k attr logs w")
  case (Some res)
  assume all: "\<forall>j. errNo (k (ncalls w + j) (ProgLoad attr)) = EAGAIN"
  from bpfProgLoad_Some_first [OF Some] obtain n where
    "errNo (k (ncalls w + n) (ProgLoad attr)) \<noteq> EAGAIN"
    by (elim exE conjE)
  with all [rule_format, of n] show ?thesis by simp
qed simp

lemma bpfProgLoad_not_EAGAIN:
  "bpfProgLoad k attr logs w = Some ((r, err), logs', w') \<Longrightarrow> err \<noteq> Some (Errno EAGAIN)"
proof -
  assume a: "bpfProgLoad k attr logs w = Some ((r, err), logs', w')"
  from bpfProgLoad_Some_first [OF a] obtain n where
    "\<forall>j<n. errNo (k (ncalls w + j) (ProgLoad attr)) = EAGAIN"
    "errNo (k (ncalls w + n) (ProgLoad attr)) \<noteq> EAGAIN"
    by (elim exE conjE)
  from bpfProgLoad_returns [of n k w attr logs] a this show ?thesis
    by (simp add: errnoErr_EAGAIN)
qed

text \<open>
  Claim C5. \<open>bpfProgLoad\<close> submits the load again as long as the kernel answers
  \<open>EAGAIN\<close>, and returns the first answer that is not \<open>EAGAIN\<close>, success
  included: when the first \<open>n\<close> answers are \<open>EAGAIN\<close> and the next one is not, it
  returns that answer after \<open>n + 1\<close> calls, so an answer with another error is
  never followed by a further call (\<open>n = 0\<close> gives a single call). When every
  answer is \<open>EAGAIN\<close> it never returns. Whatever it returns, the error is not
  \<open>EAGAIN\<close>.
\<close>

theorem bpfProgLoad_retries_only_EAGAIN:
  "((\<forall>j<n. errNo (k (ncalls w + j) (ProgLoad attr)) = EAGAIN)
      \<and> errNo (k (ncalls w + n) (ProgLoad attr)) \<noteq> EAGAIN \<longrightarrow>
      bpfProgLoad k attr logs w =
        Some ((r1 (k (ncalls w + n) (ProgLoad attr)),
               errnoErr (errNo (k (ncalls w + n) (ProgLoad attr)))),
              logsAfter k attr (ncalls w) logs (Suc n),
              w\<lparr>ncalls := ncalls w + Suc n\<rparr>))
   \<and> ((\<forall>j. errNo (k (ncalls w + j) (ProgLoad attr)) = EAGAIN) \<longrightarrow>
        bpfProgLoad k attr logs w = None)
   \<and> (\<forall>r err logs' w'. bpfProgLoad k attr logs w = Some ((r, err), logs', w') \<longrightarrow>
        err \<noteq> Some (Errno EAGAIN))"
  using bpfProgLoad_returns [of n k w attr logs] bpfProgLoad_never [of k w attr logs]
    bpfProgLoad_not_EAGAIN [of k attr logs w]
  by blast

theorem bpfProgLoad_retries_only_EAGAIN_witness:
  "errNo (kernelAgainTwice 0 (ProgLoad zeroAttr)) = EAGAIN
   \<and> errNo (kernelAgainTwice 1 (ProgLoad zeroAttr)) = EAGAIN
   \<and> errNo (kernelAgainTwice 2 (ProgLoad zeroAttr)) = 0
   \<and> bpfProgLoad kernelAgainTwice zeroAttr [] world0
       = Some ((5, None), [], world0\<lparr>ncalls := 3\<rparr>)
   \<and> bpfProgLoad kernelAgainForever zeroAttr [] world0 = None"
  using bpfProgLoad_retries_only_EAGAIN [of 2 kernelAgainTwice world0 zeroAttr "[]"]
    bpfProgLoad_retries_only_EAGAIN [of 0 kernelAgainForever world0 zeroAttr "[]"]
  by (simp add: EAGAIN_def errnoErr_def kernelWrite_def zeroAttr_def numeral_2_eq_2
      kernelAgainTwice_def kernelAgainForever_def world0_def)

section \<open>Properties of NewProgram\<close>

text \<open>
  Claim C10. For a specification with no instructions \<open>NewProgram\<close> returns the
  error \<open>instructions cannot be empty\<close> and no program, whatever the kernel, the
  name and the license are; the process is left as it was, so no system call has been
  made and no descriptor has been allocated.
\<close>

theorem NewProgram_empty:
  assumes "Instructions spec = []"
  shows "NewProgram nativeEndian k spec w
     = Some (Ret (None, Some (Errorf ''instructions cannot be empty'')), w)"
  using assms by (simp add: NewProgram_def)

theorem NewProgram_empty_witness:
  "Instructions \<lparr>Name = ''bad name'', Type = 1, Instructions = [], License = [],
       KernelVersion = 0\<rparr> = []
   \<and> NewProgram LittleEndian kernelAgainForever
         \<lparr>Name = ''bad name'', Type = 1, Instructions = [], License = [], KernelVersion = 0\<rparr>
         world0
       = Some (Ret (None, Some (Errorf ''instructions cannot be empty'')), world0)"
  using NewProgram_empty [of "\<lparr>Name = ''bad name'', Type = 1, Instructions = [], License = [],
       KernelVersion = 0\<rparr>" LittleEndian kernelAgainForever world0]
  by simp

text \<open>
  The text that \<open>convertCString\<close> reads from a log buffer: the buffer starts as
  \<open>N\<close> zero bytes, the kernel writes at most \<open>N\<close> bytes of its output over
  them, and the string is the output up to its first zero byte, or the empty string
  when the output fills the buffer before any zero byte.
\<close>

lemma copy_bytes_zeros:
  "copy_bytes (replicate N z) (take N out) = take N out @ replicate (N - length out) z"
  by (simp add: copy_bytes_def min_def)

lemma convertCString_takeWhile:
  "CHR 0x00 \<in> set b \<Longrightarrow> convertCString b = takeWhile (\<lambda>x. x \<noteq> CHR 0x00) b"
  by (simp add: convertCString_def IndexByte_def Let_def takeWhile_eq_take [symmetric])

lemma convertCString_no_NUL: "CHR 0x00 \<notin> set b \<Longrightarrow> convertCString b = []"
  by (simp add: convertCString_def IndexByte_def)

lemma convertCString_buffer:
  "convertCString (copy_bytes (replicate N (CHR 0x00)) (take N out)) =
     (if length (takeWhile (\<lambda>x. x \<noteq> CHR 0x00) out) < N
      then takeWhile (\<lambda>x. x \<noteq> CHR 0x00) out else [])"
proof -
  let ?P = "\<lambda>x. x \<noteq> CHR 0x00"
  let ?t = "takeWhile ?P out"
  let ?B = "take N out @ replicate (N - length out) (CHR 0x00)"
  have out: "out = ?t @ dropWhile ?P out"
    by simp
  show ?thesis
  proof (cases "length ?t < N")
    case True
    have "CHR 0x00 \<in> set ?B \<and> takeWhile ?P ?B = ?t"
    proof (cases "dropWhile ?P out")
      case Nil
      then have eq: "?t = out" using out by simp
      have len: "length out < N" using True unfolding eq .
      then obtain m where m: "N - length out = Suc m"
        by (cases "N - length out") simp_all
      have all: "\<forall>x \<in> set out. ?P x"
        using eq by (metis set_takeWhileD)
      then have "takeWhile ?P (out @ CHR 0x00 # replicate m (CHR 0x00)) = out"
        by (simp add: takeWhile_append2)
      then have "CHR 0x00 \<in> set ?B \<and> takeWhile ?P ?B = out"
        using len m by simp
      then show ?thesis
        unfolding eq .
    next
      case (Cons x rest)
      then have x: "x = CHR 0x00"
        using hd_dropWhile [of ?P out] by simp
      have o: "out = ?t @ CHR 0x00 # rest"
        using out Cons x by simp
      have "take N out = take N (?t @ CHR 0x00 # rest)"
        using o by simp
      also have "\<dots> = ?t @ take (N - length ?t) (CHR 0x00 # rest)"
        using True by simp
      also have "\<dots> = ?t @ CHR 0x00 # take (N - length ?t - 1) rest"
        using True by (cases "N - length ?t") simp_all
      finally have tk: "take N out = ?t @ CHR 0x00 # take (N - length ?t - 1) rest" .
      have "takeWhile ?P (?t @ CHR 0x00 # (take (N - length ?t - 1) rest
              @ replicate (N - length out) (CHR 0x00))) = takeWhile ?P ?t"
        by (rule takeWhile_tail) simp
      then show ?thesis
        by (simp add: tk)
    qed
    then show ?thesis
      using True by (simp add: copy_bytes_zeros convertCString_takeWhile)
  next
    case False
    then have le: "N \<le> length ?t" by simp
    have "length ?t \<le> length out" by (rule length_takeWhile_le)
    with le have "N - length out = 0" by simp
    moreover have "take N out = take N ?t"
      using le by (metis out take_append diff_is_0_eq take_0 append_Nil2)
    moreover have "CHR 0x00 \<notin> set (take N ?t)"
      by (metis in_set_takeD set_takeWhileD)
    ultimately show ?thesis
      using False by (simp add: copy_bytes_zeros convertCString_no_NUL)
  qed
qed

lemma NewProgram_load_error:
  assumes "Instructions spec \<noteq> []"
    and "haveObjName_Result k w = (includeName, w1)"
    and "convertProgramSpec nativeEndian spec includeName = Ret (Inr attr)"
    and "bpfProgLoad k attr [] w1 = Some ((fd, Some err), l, w2)"
    and "bpfProgLoad k (attr\<lparr>logLevel := 1, logSize := 65536, logBuf := True\<rparr>)
           (replicate 65536 (CHR 0x00)) w2 = Some ((fd', nerr), logs', w3)"
  shows "NewProgram nativeEndian k spec w =
     Some (Ret (None,
        if errors_Cause nerr = Some (Errno ENOSPC)
        then Some (Wrap err ''no debug since LogSize too small'')
        else Some (LoadError nerr (convertCString logs'))), w3)"
  using assms by (simp add: NewProgram_def DefaultVerifierLogSize_def errors_Wrap_def)

lemma errors_Cause_Errno: "errors_Cause (Some (Errno e)) = Some (Errno e)"
  by (simp add: errors_Cause_def)

lemma errnoErr_Some: "e \<noteq> 0 \<Longrightarrow> errnoErr e = Some (Errno e)"
  by (simp add: errnoErr_def)

lemma kernelWrite_logBuf:
  "logBuf attr \<Longrightarrow> logSize attr = 65536 \<Longrightarrow>
     kernelWrite (ProgLoad attr) logs out = copy_bytes logs (take 65536 out)"
  by (simp add: kernelWrite_def)

lemma feature_test_name:
  "newBPFObjName ''feature_test'' = (''feature_test'' @ replicate 4 (CHR 0x00), None)"
  by (simp add: newBPFObjName_bytes nameByte_def)

lemma haveObjName_Result_kernelRejects:
  "haveObjName_Result kernelRejects world0 =
     (True, \<lparr>ncalls = 1, closed = [3], haveObjNameMemo = Some True\<rparr>)"
  by (simp add: haveObjName_Result_def haveObjName_Fn_def feature_test_name bpfMapCreate_def
      bpfCall_def kernelRejects_def world0_def errnoErr_def kernelWrite_def)

lemma haveObjName_Result_kernelNoSpace:
  "haveObjName_Result kernelNoSpace world0 =
     (True, \<lparr>ncalls = 1, closed = [3], haveObjNameMemo = Some True\<rparr>)"
  by (simp add: haveObjName_Result_def haveObjName_Fn_def feature_test_name bpfMapCreate_def
      bpfCall_def kernelNoSpace_def world0_def errnoErr_def kernelWrite_def)

lemma Instructions_exitSpec: "Instructions exitSpec \<noteq> []"
  by (simp add: exitSpec_def)

lemma convertProgramSpec_exitSpec:
  "convertProgramSpec LittleEndian exitSpec True = Ret (Inr exitAttr)"
  by (simp add: convertProgramSpec_def exitSpec_def exitAttr_def marshalInstruction_def
      putSlot_def PutUint16_def PutUint32_def Exit_def Call_def LdDW_def InstructionSize_def
      newBPFObjName_bytes nameByte_def Let_def)

text \<open>
  Claim C4, as stated: when the first load fails, the error returned after the retry
  carries the verifier log. It does not when the retry fails with \<open>ENOSPC\<close>: the
  first load of \<open>exitSpec\<close> fails with \<open>EINVAL\<close>, the retry fills the
  buffer with the log and fails with \<open>ENOSPC\<close>, and \<open>NewProgram\<close> returns
  the first error wrapped in a message, without the log.
\<close>

theorem NewProgram_verifier_log_counterexample:
  "errNo (kernelNoSpace 1 (ProgLoad exitAttr)) = 22
   \<and> bpfProgLoad kernelNoSpace (exitAttr\<lparr>logLevel := 1, logSize := 65536, logBuf := True\<rparr>)
        (replicate 65536 (CHR 0x00)) \<lparr>ncalls = 2, closed = [3], haveObjNameMemo = Some True\<rparr>
       = Some ((- 1, Some (Errno ENOSPC)),
               replicate 65536 (CHR ''x''),
               \<lparr>ncalls = 3, closed = [3], haveObjNameMemo = Some True\<rparr>)
   \<and> NewProgram LittleEndian kernelNoSpace exitSpec world0 =
       Some (Ret (None, Some (Wrap (Errno 22) ''no debug since LogSize too small'')),
             \<lparr>ncalls = 3, closed = [3], haveObjNameMemo = Some True\<rparr>)"
proof -
  let ?w1 = "\<lparr>ncalls = 1, closed = [3], haveObjNameMemo = Some True\<rparr>"
  let ?w2 = "\<lparr>ncalls = 2, closed = [3], haveObjNameMemo = Some True\<rparr>"
  let ?w3 = "\<lparr>ncalls = 3, closed = [3], haveObjNameMemo = Some True\<rparr>"
  let ?attr' = "exitAttr\<lparr>logLevel := 1, logSize := 65536, logBuf := True\<rparr>"
  have e: "errNo (kernelNoSpace 1 (ProgLoad exitAttr)) = 22"
    by (simp add: kernelNoSpace_def exitAttr_def)
  have first: "bpfProgLoad kernelNoSpace exitAttr [] ?w1 = Some ((- 1, Some (Errno 22)), [], ?w2)"
    using bpfProgLoad_done [of kernelNoSpace ?w1 exitAttr "[]"]
    by (simp add: kernelNoSpace_def exitAttr_def EAGAIN_def errnoErr_def kernelWrite_def)
  have second: "bpfProgLoad kernelNoSpace ?attr' (replicate 65536 (CHR 0x00)) ?w2
      = Some ((- 1, Some (Errno ENOSPC)), replicate 65536 (CHR ''x''), ?w3)"
    using bpfProgLoad_done [of kernelNoSpace ?w2 ?attr' "replicate 65536 (CHR 0x00)"]
    by (simp add: kernelNoSpace_def EAGAIN_def ENOSPC_def errnoErr_def kernelWrite_logBuf
        copy_bytes_def)
  have "NewProgram LittleEndian kernelNoSpace exitSpec world0 =
       Some (Ret (None, Some (Wrap (Errno 22) ''no debug since LogSize too small'')), ?w3)"
    using NewProgram_load_error [OF _ haveObjName_Result_kernelNoSpace
        convertProgramSpec_exitSpec first second]
    by (simp add: Instructions_exitSpec errors_Cause_Errno)
  with e second show ?thesis
    by (simp only: simp_thms)
qed

text \<open>
  Claim C4, amended. Let the first load fail with an error \<open>e1\<close> other than
  \<open>EAGAIN\<close>, after \<open>n1\<close> answers \<open>EAGAIN\<close>. Then \<open>NewProgram\<close> loads the
  program once more, with log level 1 and a log buffer of 64 KiB, submitting again on
  \<open>EAGAIN\<close> as before (\<open>n2\<close> times). When this second load fails with
  \<open>ENOSPC\<close>, the error returned is \<open>e1\<close> wrapped with
  \<open>no debug since LogSize too small\<close>. When it fails with another error
  \<open>e2\<close>, the error returned is a \<open>loadError\<close> whose cause is \<open>e2\<close> and whose
  log is the content of the buffer up to its first zero byte; after a single
  submission that is the kernel's output up to its first zero byte, if that is shorter
  than the buffer, and the empty string if it is not. No program is returned, and the
  process has made exactly these \<open>n1 + 1 + n2 + 1\<close> load calls.
\<close>

theorem NewProgram_verifier_log:
  assumes "Instructions spec \<noteq> []"
    and "haveObjName_Result k w = (includeName, w1)"
    and "convertProgramSpec nativeEndian spec includeName = Ret (Inr attr)"
    and "\<forall>j<n1. errNo (k (ncalls w1 + j) (ProgLoad attr)) = EAGAIN"
    and "errNo (k (ncalls w1 + n1) (ProgLoad attr)) = e1" and "e1 \<noteq> 0" and "e1 \<noteq> EAGAIN"
    and "attr' = attr\<lparr>logLevel := 1, logSize := 65536, logBuf := True\<rparr>"
    and "\<forall>j<n2. errNo (k (ncalls w1 + Suc n1 + j) (ProgLoad attr')) = EAGAIN"
    and "errNo (k (ncalls w1 + Suc n1 + n2) (ProgLoad attr')) = e2"
    and "e2 \<noteq> 0" and "e2 \<noteq> EAGAIN"
  shows "NewProgram nativeEndian k spec w =
       Some (Ret (None,
          if e2 = ENOSPC
          then Some (Wrap (Errno e1) ''no debug since LogSize too small'')
          else Some (LoadError (Some (Errno e2))
                 (convertCString
                    (logsAfter k attr' (ncalls w1 + Suc n1) (replicate 65536 (CHR 0x00)) (Suc n2))))),
          w1\<lparr>ncalls := ncalls w1 + Suc n1 + Suc n2\<rparr>)
     \<and> (n2 = 0 \<longrightarrow>
          convertCString
            (logsAfter k attr' (ncalls w1 + Suc n1) (replicate 65536 (CHR 0x00)) (Suc n2))
          = (let msg = takeWhile (\<lambda>x. x \<noteq> CHR 0x00)
                          (logOut (k (ncalls w1 + Suc n1) (ProgLoad attr')))
             in if length msg < 65536 then msg else []))"
proof -
  let ?w2 = "w1\<lparr>ncalls := ncalls w1 + Suc n1\<rparr>"
  let ?zeros = "replicate 65536 (CHR 0x00)"
  have first: "bpfProgLoad k attr [] w1 =
      Some ((r1 (k (ncalls w1 + n1) (ProgLoad attr)), Some (Errno e1)),
            logsAfter k attr (ncalls w1) [] (Suc n1), ?w2)"
    using bpfProgLoad_returns [of n1 k w1 attr "[]"] assms(4-7)
    by (simp add: errnoErr_Some)
  have "bpfProgLoad k attr' ?zeros ?w2 =
      Some ((r1 (k (ncalls ?w2 + n2) (ProgLoad attr')), Some (Errno e2)),
            logsAfter k attr' (ncalls ?w2) ?zeros (Suc n2),
            ?w2\<lparr>ncalls := ncalls ?w2 + Suc n2\<rparr>)"
    using bpfProgLoad_returns [of n2 k ?w2 attr' ?zeros] assms(9-12)
    by (simp add: errnoErr_Some)
  then have second: "bpfProgLoad k (attr\<lparr>logLevel := 1, logSize := 65536, logBuf := True\<rparr>)
        ?zeros ?w2 =
      Some ((r1 (k (ncalls ?w2 + n2) (ProgLoad attr')), Some (Errno e2)),
            logsAfter k attr' (ncalls w1 + Suc n1) ?zeros (Suc n2),
            w1\<lparr>ncalls := ncalls w1 + Suc n1 + Suc n2\<rparr>)"
    by (simp add: assms(8))
  have res: "NewProgram nativeEndian k spec w =
       Some (Ret (None,
          if e2 = ENOSPC
          then Some (Wrap (Errno e1) ''no debug since LogSize too small'')
          else Some (LoadError (Some (Errno e2))
                 (convertCString
                    (logsAfter k attr' (ncalls w1 + Suc n1) ?zeros (Suc n2))))),
          w1\<lparr>ncalls := ncalls w1 + Suc n1 + Suc n2\<rparr>)"
    using NewProgram_load_error [OF assms(1-3) first second]
    by (simp add: errors_Cause_Errno)
  have "logBuf attr'" and "logSize attr' = 65536"
    by (simp_all add: assms(8))
  then have "logsAfter k attr' (ncalls w1 + Suc n1) ?zeros (Suc 0)
      = copy_bytes ?zeros (take 65536 (logOut (k (ncalls w1 + Suc n1) (ProgLoad attr'))))"
    by (simp add: kernelWrite_logBuf)
  then have "n2 = 0 \<longrightarrow>
          convertCString (logsAfter k attr' (ncalls w1 + Suc n1) ?zeros (Suc n2))
          = (let msg = takeWhile (\<lambda>x. x \<noteq> CHR 0x00)
                          (logOut (k (ncalls w1 + Suc n1) (ProgLoad attr')))
             in if length msg < 65536 then msg else [])"
    by (simp add: convertCString_buffer Let_def del: logsAfter.simps)
  with res show ?thesis
    by (simp only: simp_thms)
qed

theorem NewProgram_verifier_log_witness:
  "NewProgram LittleEndian kernelRejects exitSpec world0 =
     Some (Ret (None, Some (LoadError (Some (Errno 22)) ''R0 !read_ok'')),
           \<lparr>ncalls = 3, closed = [3], haveObjNameMemo = Some True\<rparr>)"
  using NewProgram_verifier_log [OF Instructions_exitSpec haveObjName_Result_kernelRejects
      convertProgramSpec_exitSpec,
      where ?n1.0 = 0 and ?n2.0 = 0 and ?e1.0 = 22 and ?e2.0 = 22
        and attr' = "exitAttr\<lparr>logLevel := 1, logSize := 65536, logBuf := True\<rparr>"]
  by (simp add: kernelRejects_def EAGAIN_def ENOSPC_def)

section \<open>Properties of convertProgramSpec\<close>







section \<open>Properties of the decoder\<close>

lemma decode_Nil: "decode bo [] = Inr []"
  by (simp add: decode.simps)

lemma getSlot_first: "getSlot LittleEndian [0x18, 0x01, 0x00, 0x00, 0xff, 0xff, 0xff, 0x7f]
   = (0x18, 0x01, 0, 0x7fffffff)"
  by (simp add: getSlot_def Uint16_def Uint32_def)

lemma getSlot_second: "getSlot LittleEndian [0x00, 0x00, 0x00, 0x00, 0xff, 0xff, 0xff, 0xff]
   = (0, 0, 0, 0xffffffff)"
  by (simp add: getSlot_def Uint16_def Uint32_def)

text \<open>
  Claim C3. The 16 bytes \<open>18 01 00 00 FF FF FF 7F 00 00 00 00 FF FF FF FF\<close>, read
  as little-endian, decode to exactly one instruction, a 64-bit immediate load into
  register 1. Its constant is the low half \<open>0x7FFFFFFF\<close> from the first slot and
  the high half \<open>0xFFFFFFFF\<close> from the second, both unsigned, and the 64-bit word
  read as signed is \<open>- 2 ^ 31 - 1\<close>.
\<close>

theorem loadInstructions_64bit_immediate:
  "loadInstructions LittleEndian
     [0x18, 0x01, 0x00, 0x00, 0xff, 0xff, 0xff, 0x7f,
      0x00, 0x00, 0x00, 0x00, 0xff, 0xff, 0xff, 0xff]
   = Inr ([\<lparr>OpCode = LdDW, DstRegister = 1, SrcRegister = 0, Offset = 0,
             Constant = 0xffffffff7fffffff, Reference = None, Symbol = None\<rparr>], 16)
   \<and> (0xffffffff7fffffff :: 64 word)
       = ucast (0x7fffffff :: 32 word) OR push_bit 32 (ucast (0xffffffff :: 32 word))
   \<and> sint (0xffffffff7fffffff :: 64 word) = - (2 ^ 31) - 1"
  by (simp add: loadInstructions_def decode.simps [of _ "_ # _"] decode_Nil getSlot_first getSlot_second
      newInstruction_def LdDW_def)

section \<open>Properties of linking\<close>

text \<open>
  Patching a call changes neither its slot count nor its symbol, and appending leaves
  the instructions before it where they are: the wire slot of every instruction of the
  sequence stays what it was.
\<close>

lemma wire_slots_take_update:
  assumes "i < length xs" and "slots x = slots (xs ! i)"
  shows "wire_slots (take j (xs[i := x])) = wire_slots (take j xs)"
proof -
  have "map slots (xs[i := x]) = (map slots xs)[i := slots (xs ! i)]"
    using assms by (simp add: map_update)
  also have "\<dots> = map slots xs"
    using assms(1) by (simp add: list_update_same_conv)
  finally show ?thesis
    by (simp add: wire_slots_def take_map [symmetric] del: take_map)
qed

lemma wire_slots_take_append:
  "j \<le> length xs \<Longrightarrow> wire_slots (take j (xs @ ys)) = wire_slots (take j xs)"
  by (simp add: wire_slots_def)

lemma slots_patchCall: "slots (patchCall ins k m) = slots ins"
  by (simp add: patchCall_def slots_def)

lemma callRef_Call: "callRef ins = Some s \<Longrightarrow> OpCode ins = Call"
  by (simp add: callRef_def split: if_splits)

lemma throughExit_first: "throughExit (ins # rest) ! 0 = ins \<and> throughExit (ins # rest) \<noteq> []"
  by simp

lemma subProgram_first:
  assumes "subProgram lib s = Some sub"
  shows "sub \<noteq> [] \<and> Symbol (sub ! 0) = Some s"
proof (cases "dropWhile (\<lambda>ins. Symbol ins \<noteq> Some s) lib")
  case Nil
  with assms show ?thesis by (simp add: subProgram_def)
next
  case (Cons ins rest)
  then have "Symbol ins = Some s"
    using hd_dropWhile [of "\<lambda>ins. Symbol ins \<noteq> Some s" lib] by simp
  moreover have "sub = throughExit (ins # rest)"
    using assms Cons by (simp add: subProgram_def)
  ultimately show ?thesis
    using throughExit_first [of ins rest] by simp
qed

lemma link_inv_skip:
  "link_inv n0 st \<Longrightarrow> link_inv n0 (st\<lparr>l_pos := l_pos st + 1\<rparr>)"
  unfolding link_inv_def by simp (meson less_SucI)

lemma link_inv_append:
  assumes inv: "link_inv n0 st" and free: "l_offsets st s = None"
    and sub: "sub \<noteq> []" "Symbol (sub ! 0) = Some s"
  shows "link_inv n0 (st\<lparr>l_insns := l_insns st @ sub,
                          l_offsets := (l_offsets st)(s \<mapsto> wire_slots (l_insns st))\<rparr>)"
  unfolding link_inv_def
proof (intro conjI allI impI)
  let ?st = "st\<lparr>l_insns := l_insns st @ sub,
                  l_offsets := (l_offsets st)(s \<mapsto> wire_slots (l_insns st))\<rparr>"
  show "n0 \<le> length (l_insns ?st)"
    using inv by (simp add: link_inv_def)
next
  let ?st = "st\<lparr>l_insns := l_insns st @ sub,
                  l_offsets := (l_offsets st)(s \<mapsto> wire_slots (l_insns st))\<rparr>"
  fix s' m assume a: "l_offsets ?st s' = Some m"
  show "\<exists>j. n0 \<le> j \<and> j < length (l_insns ?st) \<and> Symbol (l_insns ?st ! j) = Some s'
            \<and> wire_slots (take j (l_insns ?st)) = m"
  proof (cases "s' = s")
    case True
    then have "m = wire_slots (l_insns st)" using a by simp
    then have "n0 \<le> length (l_insns st) \<and> length (l_insns st) < length (l_insns ?st)
        \<and> Symbol (l_insns ?st ! length (l_insns st)) = Some s'
        \<and> wire_slots (take (length (l_insns st)) (l_insns ?st)) = m"
      using inv sub True by (simp add: link_inv_def nth_append)
    then show ?thesis by blast
  next
    case False
    then have "l_offsets st s' = Some m" using a by simp
    then obtain j where j: "n0 \<le> j" "j < length (l_insns st)"
        "Symbol (l_insns st ! j) = Some s'" "wire_slots (take j (l_insns st)) = m"
      using inv by (auto simp: link_inv_def)
    then have "n0 \<le> j \<and> j < length (l_insns ?st) \<and> Symbol (l_insns ?st ! j) = Some s'
        \<and> wire_slots (take j (l_insns ?st)) = m"
      by (simp add: nth_append wire_slots_take_append)
    then show ?thesis by blast
  qed
next
  let ?st = "st\<lparr>l_insns := l_insns st @ sub,
                  l_offsets := (l_offsets st)(s \<mapsto> wire_slots (l_insns st))\<rparr>"
  fix i s' assume a: "(i, s') \<in> set (l_sites ?st)"
  then have old: "i < l_pos st" "i < length (l_insns st)" "OpCode (l_insns st ! i) = Call"
    "\<exists>m. l_offsets st s' = Some m
        \<and> Constant (l_insns st ! i)
            = word_of_int (int m - (int (wire_slots (take i (l_insns st))) + 1))"
    using inv by (auto simp: link_inv_def)
  then have ne: "s' \<noteq> s" using free by auto
  show "i < l_pos ?st" using old by simp
  show "i < length (l_insns ?st)" using old by simp
  show "OpCode (l_insns ?st ! i) = Call" using old by (simp add: nth_append)
  show "\<exists>m. l_offsets ?st s' = Some m
        \<and> Constant (l_insns ?st ! i)
            = word_of_int (int m - (int (wire_slots (take i (l_insns ?st))) + 1))"
    using old ne by (simp add: nth_append wire_slots_take_append)
qed

lemma link_inv_patch:
  assumes inv: "link_inv n0 st" and i: "l_pos st < length (l_insns st)"
    and call: "callRef (l_insns st ! l_pos st) = Some s"
    and known: "l_offsets st s = Some m"
  shows "link_inv n0
     (st\<lparr>l_insns := (l_insns st)[l_pos st := patchCall (l_insns st ! l_pos st)
                          (wire_slots (take (l_pos st) (l_insns st))) m],
          l_pos := l_pos st + 1,
          l_sites := l_sites st @ [(l_pos st, s)]\<rparr>)"
  unfolding link_inv_def
proof (intro conjI allI impI)
  let ?p = "patchCall (l_insns st ! l_pos st) (wire_slots (take (l_pos st) (l_insns st))) m"
  let ?xs = "(l_insns st)[l_pos st := ?p]"
  let ?st = "st\<lparr>l_insns := ?xs, l_pos := l_pos st + 1, l_sites := l_sites st @ [(l_pos st, s)]\<rparr>"
  have ws: "wire_slots (take j ?xs) = wire_slots (take j (l_insns st))" for j
    using i by (simp add: wire_slots_take_update slots_patchCall)
  have sym: "Symbol (?xs ! j) = Symbol (l_insns st ! j)" if "j < length (l_insns st)" for j
    using that by (cases "j = l_pos st") (simp_all add: patchCall_def)
  have opc: "OpCode (?xs ! j) = OpCode (l_insns st ! j)" if "j < length (l_insns st)" for j
    using that by (cases "j = l_pos st") (simp_all add: patchCall_def)
  show "n0 \<le> length (l_insns ?st)"
    using inv by (simp add: link_inv_def)
  {
    fix s' m' assume "l_offsets ?st s' = Some m'"
    then have "l_offsets st s' = Some m'" by simp
    then obtain j where j: "n0 \<le> j" "j < length (l_insns st)"
        "Symbol (l_insns st ! j) = Some s'" "wire_slots (take j (l_insns st)) = m'"
      using inv by (auto simp: link_inv_def)
    then have "n0 \<le> j \<and> j < length (l_insns ?st) \<and> Symbol (l_insns ?st ! j) = Some s'
        \<and> wire_slots (take j (l_insns ?st)) = m'"
      using ws sym by simp
    then show "\<exists>j. n0 \<le> j \<and> j < length (l_insns ?st) \<and> Symbol (l_insns ?st ! j) = Some s'
            \<and> wire_slots (take j (l_insns ?st)) = m'"
      by blast
  }
  fix i' s' assume a: "(i', s') \<in> set (l_sites ?st)"
  then consider (old) "(i', s') \<in> set (l_sites st)" | (new) "i' = l_pos st" "s' = s"
    by auto
  then have "i' < l_pos ?st \<and> i' < length (l_insns ?st) \<and> OpCode (l_insns ?st ! i') = Call
      \<and> (\<exists>m. l_offsets ?st s' = Some m
            \<and> Constant (l_insns ?st ! i')
                = word_of_int (int m - (int (wire_slots (take i' (l_insns ?st))) + 1)))"
  proof cases
    case old
    then have o: "i' < l_pos st" "i' < length (l_insns st)" "OpCode (l_insns st ! i') = Call"
      "\<exists>m. l_offsets st s' = Some m
        \<and> Constant (l_insns st ! i')
            = word_of_int (int m - (int (wire_slots (take i' (l_insns st))) + 1))"
      using inv by (auto simp: link_inv_def)
    then have "?xs ! i' = l_insns st ! i'" by simp
    with o ws show ?thesis by (simp add: opc)
  next
    case new
    have "Constant ?p = word_of_int (int m - (int (wire_slots (take (l_pos st) (l_insns st))) + 1))"
      by (simp add: patchCall_def)
    moreover have "OpCode ?p = Call"
      using callRef_Call [OF call] by (simp add: patchCall_def)
    ultimately show ?thesis
      using new i known ws by simp
  qed
  then show "i' < l_pos ?st" and "i' < length (l_insns ?st)" and "OpCode (l_insns ?st ! i') = Call"
    and "\<exists>m. l_offsets ?st s' = Some m
            \<and> Constant (l_insns ?st ! i')
                = word_of_int (int m - (int (wire_slots (take i' (l_insns ?st))) + 1))"
    by blast+
qed

lemma link_step_inv:
  assumes inv: "link_inv n0 st" and i: "l_pos st < length (l_insns st)"
    and step: "link_step strict lib st = Inr st'"
  shows "link_inv n0 st'"
proof (cases "callRef (l_insns st ! l_pos st)")
  case None
  then have "st' = st\<lparr>l_pos := l_pos st + 1\<rparr>"
    using step by (simp add: link_step_def Let_def)
  then show ?thesis using link_inv_skip [OF inv] by simp
next
  case (Some s)
  show ?thesis
  proof (cases "l_offsets st s")
    case (Some m)
    then have "st' = st\<lparr>l_insns := (l_insns st)[l_pos st := patchCall (l_insns st ! l_pos st)
                          (wire_slots (take (l_pos st) (l_insns st))) m],
          l_pos := l_pos st + 1,
          l_sites := l_sites st @ [(l_pos st, s)]\<rparr>"
      using step \<open>callRef (l_insns st ! l_pos st) = Some s\<close>
      by (simp add: link_step_def Let_def)
    then show ?thesis
      using link_inv_patch [OF inv i \<open>callRef (l_insns st ! l_pos st) = Some s\<close> Some]
      by simp
  next
    case None
    show ?thesis
    proof (cases "subProgram lib s")
      case None
      then have "st' = st\<lparr>l_pos := l_pos st + 1\<rparr>"
        using step \<open>callRef (l_insns st ! l_pos st) = Some s\<close> \<open>l_offsets st s = None\<close>
        by (simp add: link_step_def Let_def split: if_splits)
      then show ?thesis using link_inv_skip [OF inv] by simp
    next
      case (Some sub)
      let ?m = "wire_slots (l_insns st)"
      let ?st1 = "st\<lparr>l_insns := l_insns st @ sub, l_offsets := (l_offsets st)(s \<mapsto> ?m)\<rparr>"
      have inv1: "link_inv n0 ?st1"
        using inv \<open>l_offsets st s = None\<close> subProgram_first [OF Some]
        by (simp add: link_inv_append)
      have "link_inv n0
         (?st1\<lparr>l_insns := (l_insns ?st1)[l_pos ?st1 := patchCall (l_insns ?st1 ! l_pos ?st1)
                          (wire_slots (take (l_pos ?st1) (l_insns ?st1))) ?m],
          l_pos := l_pos ?st1 + 1,
          l_sites := l_sites ?st1 @ [(l_pos ?st1, s)]\<rparr>)"
      proof (rule link_inv_patch [OF inv1])
        show "l_pos ?st1 < length (l_insns ?st1)" using i by simp
        show "callRef (l_insns ?st1 ! l_pos ?st1) = Some s"
          using i \<open>callRef (l_insns st ! l_pos st) = Some s\<close> by (simp add: nth_append)
        show "l_offsets ?st1 s = Some ?m" by simp
      qed
      moreover have "st' = ?st1\<lparr>l_insns := (l_insns ?st1)[l_pos ?st1 :=
                          patchCall (l_insns ?st1 ! l_pos ?st1)
                          (wire_slots (take (l_pos ?st1) (l_insns ?st1))) ?m],
          l_pos := l_pos ?st1 + 1,
          l_sites := l_sites ?st1 @ [(l_pos ?st1, s)]\<rparr>"
        using step i \<open>callRef (l_insns st ! l_pos st) = Some s\<close> \<open>l_offsets st s = None\<close> Some
        by (cases st) (auto simp: link_step_def Let_def nth_append)
      ultimately show ?thesis by simp
    qed
  qed
qed

lemma link_scan_inv:
  "link_inv n0 st \<Longrightarrow> link_scan strict lib st = Inr st' \<Longrightarrow> link_inv n0 st'"
proof (induction strict lib st rule: link_scan.induct)
  case (1 strict lib st)
  show ?case
  proof (cases "length (l_insns st) \<le> l_pos st")
    case True
    then have "st' = st"
      using "1.prems"(2) by (simp add: link_scan.simps)
    then show ?thesis using "1.prems"(1) by simp
  next
    case False
    then obtain st1 where step: "link_step strict lib st = Inr st1"
      and rest: "link_scan strict lib st1 = Inr st'"
      using "1.prems"(2) by (subst (asm) link_scan.simps) (simp split: sum.splits)
    from False have "l_pos st < length (l_insns st)" by simp
    from link_step_inv [OF "1.prems"(1) this step] have "link_inv n0 st1" .
    from "1.IH" [OF False step this rest] show ?thesis .
  qed
qed

lemma link_inv_initial:
  "link_inv (length insns) \<lparr>l_insns = insns, l_pos = 0, l_offsets = Map.empty, l_sites = []\<rparr>"
  by (simp add: link_inv_def)

lemma link_step_cov:
  assumes cov: "link_cov insns0 lib st" and i: "l_pos st < length (l_insns st)"
    and step: "link_step strict lib st = Inr st'"
  shows "link_cov insns0 lib st'"
proof -
  let ?i = "l_pos st"
  let ?ins = "l_insns st ! ?i"
  from cov have len: "length insns0 \<le> length (l_insns st)"
    and later: "\<And>j. ?i \<le> j \<Longrightarrow> j < length insns0 \<Longrightarrow> l_insns st ! j = insns0 ! j"
    and before: "\<And>j s. j < ?i \<Longrightarrow> j < length insns0 \<Longrightarrow> callRef (insns0 ! j) = Some s \<Longrightarrow>
           (j, s) \<in> set (l_sites st) \<or> (l_insns st ! j = insns0 ! j \<and> subProgram lib s = None)"
    and offs: "\<And>s m. l_offsets st s = Some m \<Longrightarrow> subProgram lib s \<noteq> None"
    unfolding link_cov_def by blast+
  consider
    (skip) "st' = st\<lparr>l_pos := ?i + 1\<rparr>"
      "callRef ?ins = None \<or> (\<exists>s. callRef ?ins = Some s \<and> subProgram lib s = None)"
  | (patch) s xs off where "callRef ?ins = Some s" "subProgram lib s \<noteq> None"
      "length (l_insns st) \<le> length xs" "\<And>j. j < length (l_insns st) \<Longrightarrow> j \<noteq> ?i \<Longrightarrow> xs ! j = l_insns st ! j"
      "l_insns st' = xs" "l_pos st' = ?i + 1" "l_sites st' = l_sites st @ [(?i, s)]"
      "l_offsets st' = l_offsets st \<or> l_offsets st' = (l_offsets st)(s \<mapsto> off)"
  proof (cases "callRef ?ins")
    case None
    then show ?thesis using step that(1) by (simp add: link_step_def Let_def)
  next
    case (Some s)
    show ?thesis
    proof (cases "l_offsets st s")
      case (Some m)
      then show ?thesis
        using step \<open>callRef ?ins = Some s\<close> offs [OF Some] i
        by (intro that(2) [of s "(l_insns st)[?i := patchCall ?ins (wire_slots (take ?i (l_insns st))) m]"])
           (auto simp: link_step_def Let_def)
    next
      case None
      show ?thesis
      proof (cases "subProgram lib s")
        case None
        then show ?thesis
          using step \<open>callRef ?ins = Some s\<close> \<open>l_offsets st s = None\<close> that(1)
          by (simp add: link_step_def Let_def split: if_splits)
      next
        case (Some sub)
        then show ?thesis
          using step \<open>callRef ?ins = Some s\<close> \<open>l_offsets st s = None\<close> i
          by (intro that(2) [of s "(l_insns st @ sub)[?i := patchCall ?ins
                  (wire_slots (take ?i (l_insns st))) (wire_slots (l_insns st))]"
                "wire_slots (l_insns st)"])
             (auto simp: link_step_def Let_def nth_append)
      qed
    qed
  qed
  then show ?thesis
  proof cases
    case skip
    show ?thesis
      unfolding link_cov_def
    proof (intro conjI allI impI)
      show "length insns0 \<le> length (l_insns st')" using len skip(1) by simp
      show "l_insns st' ! j = insns0 ! j" if "l_pos st' \<le> j \<and> j < length insns0" for j
        using that later [of j] skip(1) by simp
      show "(j, s) \<in> set (l_sites st')
           \<or> (l_insns st' ! j = insns0 ! j \<and> subProgram lib s = None)"
        if a: "j < l_pos st' \<and> j < length insns0 \<and> callRef (insns0 ! j) = Some s" for j s
      proof (cases "j = ?i")
        case True
        then have "l_insns st ! j = insns0 ! j" using a later [of j] by simp
        then show ?thesis using a True skip by auto
      next
        case False
        then have "j < ?i" using a skip(1) by simp
        then show ?thesis using before [of j s] a skip(1) by simp
      qed
      show "subProgram lib s \<noteq> None" if "l_offsets st' s = Some m" for s m
        using that offs [of s m] skip(1) by simp
    qed
  next
    case (patch s xs off)
    show ?thesis
      unfolding link_cov_def
    proof (intro conjI allI impI)
      show "length insns0 \<le> length (l_insns st')" using len patch by simp
      show "l_insns st' ! j = insns0 ! j" if "l_pos st' \<le> j \<and> j < length insns0" for j
        using that later [of j] patch len by simp
      show "(j, s') \<in> set (l_sites st')
           \<or> (l_insns st' ! j = insns0 ! j \<and> subProgram lib s' = None)"
        if a: "j < l_pos st' \<and> j < length insns0 \<and> callRef (insns0 ! j) = Some s'" for j s'
      proof (cases "j = ?i")
        case True
        then have "l_insns st ! j = insns0 ! j" using a later [of j] by simp
        then have "s' = s" using a True patch(1) by simp
        then show ?thesis using True patch(7) by simp
      next
        case False
        then have j: "j < ?i" using a patch(6) by simp
        then have "xs ! j = l_insns st ! j" using patch(4) [of j] i by simp
        then show ?thesis using before [of j s'] a j patch by auto
      qed
      show "subProgram lib s' \<noteq> None" if "l_offsets st' s' = Some m" for s' m
        using that offs [of s' m] patch(2,8) by (auto split: if_splits)
    qed
  qed
qed

lemma link_scan_cov:
  "link_cov insns0 lib st \<Longrightarrow> link_scan strict lib st = Inr st' \<Longrightarrow>
     link_cov insns0 lib st' \<and> length (l_insns st') \<le> l_pos st'"
proof (induction strict lib st rule: link_scan.induct)
  case (1 strict lib st)
  show ?case
  proof (cases "length (l_insns st) \<le> l_pos st")
    case True
    then have "st' = st"
      using "1.prems"(2) by (simp add: link_scan.simps)
    then show ?thesis using "1.prems"(1) True by simp
  next
    case False
    then obtain st1 where step: "link_step strict lib st = Inr st1"
      and rest: "link_scan strict lib st1 = Inr st'"
      using "1.prems"(2) by (subst (asm) link_scan.simps) (simp split: sum.splits)
    from False have "l_pos st < length (l_insns st)" by simp
    from link_step_cov [OF "1.prems"(1) this step] have "link_cov insns0 lib st1" .
    from "1.IH" [OF False step this rest] show ?thesis .
  qed
qed

lemma link_cov_initial:
  "link_cov insns lib \<lparr>l_insns = insns, l_pos = 0, l_offsets = Map.empty, l_sites = []\<rparr>"
  by (simp add: link_cov_def)

text \<open>
  Claim C7. After \<open>Link\<close> has succeeded, every call site that it resolved, at
  index \<open>i\<close> of the sequence and so at wire slot \<open>k\<close>, the wire-slot length of
  the instructions before it, with the symbol \<open>s\<close>, has as constant the signed
  distance \<open>m - (k + 1)\<close>, where \<open>m\<close> is the offset recorded for \<open>s\<close>: the
  wire slot of an instruction \<open>j\<close> behind the primary sequence that carries the
  symbol \<open>s\<close>, the first instruction of the appended sub-program. The resolved
  call sites include every call of the primary sequence whose label has a sub-program
  in the library; a call whose label has none is left as it was.
\<close>

theorem Link_call_distance:
  assumes "Link cyclic strict insns lib = Inr insns'"
  shows "\<exists>st. link_scan strict lib
                 \<lparr>l_insns = insns, l_pos = 0, l_offsets = Map.empty, l_sites = []\<rparr> = Inr st
      \<and> l_insns st = insns'
      \<and> (\<forall>i s. (i, s) \<in> set (l_sites st) \<longrightarrow>
            (\<exists>m j. l_offsets st s = Some m
               \<and> length insns \<le> j \<and> j < length insns' \<and> Symbol (insns' ! j) = Some s
               \<and> wire_slots (take j insns') = m
               \<and> i < length insns' \<and> OpCode (insns' ! i) = Call
               \<and> Constant (insns' ! i)
                   = word_of_int (int m - (int (wire_slots (take i insns')) + 1))))
      \<and> (\<forall>i s. i < length insns \<and> callRef (insns ! i) = Some s \<longrightarrow>
            (if subProgram lib s = None then insns' ! i = insns ! i
             else (i, s) \<in> set (l_sites st)))"
proof -
  let ?st0 = "\<lparr>l_insns = insns, l_pos = 0, l_offsets = Map.empty, l_sites = []\<rparr>"
  from assms obtain st where scan: "link_scan strict lib ?st0 = Inr st"
    and res: "l_insns st = insns'"
    by (auto simp: Link_def split: if_splits sum.splits)
  have inv: "link_inv (length insns) st"
    using link_inv_initial scan by (rule link_scan_inv)
  have cov: "link_cov insns lib st" and visited: "length (l_insns st) \<le> l_pos st"
    using link_scan_cov [OF link_cov_initial scan] by simp_all
  have sites: "\<exists>m j. l_offsets st s = Some m
               \<and> length insns \<le> j \<and> j < length insns' \<and> Symbol (insns' ! j) = Some s
               \<and> wire_slots (take j insns') = m
               \<and> i < length insns' \<and> OpCode (insns' ! i) = Call
               \<and> Constant (insns' ! i)
                   = word_of_int (int m - (int (wire_slots (take i insns')) + 1))"
    if site: "(i, s) \<in> set (l_sites st)" for i s
  proof -
    from inv site obtain m where m: "l_offsets st s = Some m" "i < length (l_insns st)"
      "OpCode (l_insns st ! i) = Call"
      "Constant (l_insns st ! i)
         = word_of_int (int m - (int (wire_slots (take i (l_insns st))) + 1))"
      unfolding link_inv_def by blast
    from inv m(1) obtain j where "length insns \<le> j" "j < length (l_insns st)"
      "Symbol (l_insns st ! j) = Some s" "wire_slots (take j (l_insns st)) = m"
      unfolding link_inv_def by blast
    with m show ?thesis unfolding res by blast
  qed
  have calls: "if subProgram lib s = None then insns' ! i = insns ! i
             else (i, s) \<in> set (l_sites st)"
    if call: "i < length insns \<and> callRef (insns ! i) = Some s" for i s
  proof -
    from cov have "length insns \<le> length (l_insns st)"
      unfolding link_cov_def by blast
    with visited call have "i < l_pos st" by simp
    with cov call have d: "(i, s) \<in> set (l_sites st)
        \<or> (l_insns st ! i = insns ! i \<and> subProgram lib s = None)"
      unfolding link_cov_def by blast
    show ?thesis
    proof (cases "subProgram lib s = None")
      case True
      have "(i, s) \<notin> set (l_sites st)"
      proof
        assume "(i, s) \<in> set (l_sites st)"
        with inv obtain m where "l_offsets st s = Some m"
          unfolding link_inv_def by blast
        with cov have "subProgram lib s \<noteq> None"
          unfolding link_cov_def by blast
        with True show False by simp
      qed
      with d True show ?thesis unfolding res by simp
    next
      case False
      with d have "(i, s) \<in> set (l_sites st)" by blast
      with False show ?thesis by (simp only: if_False)
    qed
  qed
  from scan res sites calls show ?thesis by blast
qed

lemma link_scan_test:
  "link_scan True [linkFunc, linkExit]
       \<lparr>l_insns = [linkCall, linkExit], l_pos = 0, l_offsets = Map.empty, l_sites = []\<rparr>
     = Inr \<lparr>l_insns = [linkCall\<lparr>Constant := 1, Reference := None\<rparr>, linkExit, linkFunc, linkExit],
            l_pos = 4, l_offsets = [''my_func'' \<mapsto> 2], l_sites = [(0, ''my_func'')]\<rparr>"
  by (simp add: link_scan.simps link_step_def callRef_def subProgram_def patchCall_def
      wire_slots_def slots_def linkCall_def linkExit_def linkFunc_def Let_def
      Call_def Exit_def LdDW_def)
    (simp add: numeral_2_eq_2)

theorem Link_call_distance_witness:
  "Link (\<lambda>lib. False) True [linkCall, linkExit] [linkFunc, linkExit]
     = Inr [linkCall\<lparr>Constant := 1, Reference := None\<rparr>, linkExit, linkFunc, linkExit]
   \<and> wire_slots (take 0 [linkCall\<lparr>Constant := 1, Reference := None\<rparr>, linkExit, linkFunc,
                          linkExit]) = 0
   \<and> wire_slots (take 2 [linkCall\<lparr>Constant := 1, Reference := None\<rparr>, linkExit, linkFunc,
                          linkExit]) = 2
   \<and> Symbol ([linkCall\<lparr>Constant := 1, Reference := None\<rparr>, linkExit, linkFunc, linkExit] ! 2)
       = Some ''my_func''
   \<and> Constant ([linkCall\<lparr>Constant := 1, Reference := None\<rparr>, linkExit, linkFunc, linkExit] ! 0)
       = word_of_int (int 2 - (int 0 + 1))"
proof -
  have e: "Link (\<lambda>lib. False) True [linkCall, linkExit] [linkFunc, linkExit]
     = Inr [linkCall\<lparr>Constant := 1, Reference := None\<rparr>, linkExit, linkFunc, linkExit]"
    by (simp add: Link_def link_scan_test)
  show ?thesis
    using Link_call_distance [OF e] e
    by (simp add: wire_slots_def slots_def linkCall_def linkExit_def linkFunc_def
        Call_def Exit_def LdDW_def)
qed

end
